theory Spec2Isabelle
  imports Complex_Main "HOL-Library.DAList"
begin

section \<open>Python values: exceptions and dictionaries\<close>

text \<open>
  Every \<^verbatim>\<open>raise\<close>, failed lookup and failed \<^verbatim>\<open>assert\<close> of the notebooks is a value
  of type \<open>error\<close>; a fallible function returns \<open>error + 'a\<close> with \<open>Inl\<close> for the
  exception. Assertions are modelled as executed (the interpreter's default mode).
\<close>

datatype error = KeyError | IndexError | ValueError | AssertionError | TypeError | SympifyError

text \<open>
  A Python \<^verbatim>\<open>dict\<close> keeps its keys unique and in insertion order: it is an association
  list with distinct keys, the type \<open>('k, 'v) alist\<close>. A dict display
  \<^verbatim>\<open>{k1: v1, k2: v2, ...}\<close> inserts its items from left to right, a repeated key
  overwriting the earlier value in place.
\<close>

type_synonym 'v dict = "(string, 'v) alist"

definition dict_literal :: "('k \<times> 'v) list \<Rightarrow> ('k, 'v) alist" where
  "dict_literal kvs = foldl (\<lambda>d (key, v). DAList.update key v d) DAList.empty kvs"

definition items :: "('k, 'v) alist \<Rightarrow> ('k \<times> 'v) list" where
  "items d = DAList.impl_of d"

text \<open>Subscription \<^verbatim>\<open>d[key]\<close> of a dictionary built locally (a finite map).\<close>

definition getitem :: "('k \<rightharpoonup> 'v) \<Rightarrow> 'k \<Rightarrow> error + 'v" where
  "getitem d key = (case d key of None \<Rightarrow> Inl KeyError | Some v \<Rightarrow> Inr v)"

text \<open>A list comprehension \<^verbatim>\<open>[g(x) for x in xs]\<close> whose element expression may raise:
  the elements are computed from left to right and the first exception ends it.\<close>

fun comprehension :: "('a \<Rightarrow> error + 'b) \<Rightarrow> 'a list \<Rightarrow> error + 'b list" where
  "comprehension g [] = Inr []"
| "comprehension g (x # xs) =
     (case g x of
        Inl e \<Rightarrow> Inl e
      | Inr v \<Rightarrow> (case comprehension g xs of Inl e \<Rightarrow> Inl e | Inr vs \<Rightarrow> Inr (v # vs)))"

section \<open>Symbolic construction of the rate equations: \<open>mk_exprs_symbs\<close>\<close>

text \<open>
  \<^verbatim>\<open>
  def prod(seq):
      return reduce(mul, seq) if seq else 1

  def mk_exprs_symbs(rxns, names):
      symbs = sym.symbols(names, real=True, nonnegative=True)
      c = dict(zip(names, symbs))
      f = {n: 0 for n in names}
      k = []
      for coeff, r_stoich, net_stoich in rxns:
          k.append(sym.S(coeff))
          r = k[-1]*prod([c[rk]**p for rk, p in r_stoich.items()])
          for net_key, net_mult in net_stoich.items():
              f[net_key] += net_mult*r
      return [f[n] for n in names], symbs, tuple(k)
  \<close>
  The expressions are the syntax trees that the arithmetic operators of the code build, in
  the order in which the code applies them: \<open>Num\<close> is a Python integer and \<open>Sym\<close> an atom
  of SymPy (a symbol or a constant such as \<^verbatim>\<open>pi\<close>), of an arbitrary type \<open>'x\<close>.
  Multiplicities and net coefficients are Python integers.
\<close>

datatype 'x expr =
    Num int
  | Sym 'x
  | Add "'x expr" "'x expr"
  | Mul "'x expr" "'x expr"
  | PowE "'x expr" int

text \<open>
  What SymPy hands back is either an expression or some other object that supports no
  arithmetic, such as the tuple of symbols that \<^verbatim>\<open>sym.symbols\<close> makes of a name with a
  range or a comma: \<^verbatim>\<open>**\<close> and \<^verbatim>\<open>*\<close> on such an object raise \<open>TypeError\<close>.
\<close>

datatype 'x obj = Expr "'x expr" | Other

text \<open>
  SymPy itself is a parameter of the model. \<open>sym_S\<close> is \<^verbatim>\<open>sym.S\<close> on a string: it
  parses the string, so it may raise (\<^verbatim>\<open>'lambda'\<close>) and need not return a symbol
  (\<^verbatim>\<open>'2'\<close> is the integer 2). \<open>sym_symbol\<close> is what
  \<^verbatim>\<open>sym.symbols(..., real=True, nonnegative=True)\<close> makes of one name of the list: it
  may raise (the empty name) and need not return a symbol (\<^verbatim>\<open>'x:2'\<close> is a tuple). For a
  list of names \<^verbatim>\<open>sym.symbols\<close> returns the list of these objects, one per name.
\<close>

record 'x sympy =
  sym_S :: "string \<Rightarrow> error + 'x obj"
  sym_symbol :: "string \<Rightarrow> error + 'x obj"

type_synonym reaction = "string \<times> int dict \<times> int dict"

definition symbols :: "'x sympy \<Rightarrow> string list \<Rightarrow> error + 'x obj list" where
  "symbols lib names = comprehension (sym_symbol lib) names"

text \<open>The operators \<^verbatim>\<open>b**p\<close> with an integer \<open>p\<close> and \<^verbatim>\<open>a*b\<close> with an expression
  \<open>b\<close>.\<close>

definition pow_obj :: "'x obj \<Rightarrow> int \<Rightarrow> error + 'x expr" where
  "pow_obj b p = (case b of Expr e \<Rightarrow> Inr (PowE e p) | Other \<Rightarrow> Inl TypeError)"

definition mul_obj :: "'x obj \<Rightarrow> 'x expr \<Rightarrow> error + 'x expr" where
  "mul_obj a b = (case a of Expr e \<Rightarrow> Inr (Mul e b) | Other \<Rightarrow> Inl TypeError)"

definition prod_seq :: "'x expr list \<Rightarrow> 'x expr" where
  "prod_seq seq = (case seq of [] \<Rightarrow> Num 1 | x # xs \<Rightarrow> foldl Mul x xs)"

text \<open>The rate expression \<^verbatim>\<open>r = k[-1]*prod([c[rk]**p for rk, p in r_stoich.items()])\<close>:
  the list is built first, then multiplied.\<close>

definition rate_expr :: "(string \<rightharpoonup> 'x obj) \<Rightarrow> 'x obj \<Rightarrow> int dict \<Rightarrow> error + 'x expr" where
  "rate_expr c k_last r_stoich =
     (case comprehension
             (\<lambda>(rk, p). case getitem c rk of Inl e \<Rightarrow> Inl e | Inr s \<Rightarrow> pow_obj s p)
             (items r_stoich) of
        Inl e \<Rightarrow> Inl e
      | Inr powers \<Rightarrow> mul_obj k_last (prod_seq powers))"

text \<open>The inner loop: \<^verbatim>\<open>f[net_key] += net_mult*r\<close> reads \<^verbatim>\<open>f[net_key]\<close> first.\<close>

fun accumulate ::
  "'x expr \<Rightarrow> (string \<rightharpoonup> 'x expr) \<Rightarrow> (string \<times> int) list
     \<Rightarrow> error + (string \<rightharpoonup> 'x expr)" where
  "accumulate r f [] = Inr f"
| "accumulate r f ((net_key, net_mult) # rest) =
     (case getitem f net_key of
        Inl e \<Rightarrow> Inl e
      | Inr old \<Rightarrow> accumulate r (f(net_key \<mapsto> Add old (Mul (Num net_mult) r))) rest)"

text \<open>The outer loop over the reactions, with the state \<open>f\<close>, \<open>k\<close> passed along.\<close>

fun rxn_loop ::
  "'x sympy \<Rightarrow> (string \<rightharpoonup> 'x obj) \<Rightarrow> (string \<rightharpoonup> 'x expr) \<Rightarrow> 'x obj list \<Rightarrow> reaction list
     \<Rightarrow> error + ((string \<rightharpoonup> 'x expr) \<times> 'x obj list)" where
  "rxn_loop lib c f k [] = Inr (f, k)"
| "rxn_loop lib c f k ((coeff, r_stoich, net_stoich) # rest) =
     (case sym_S lib coeff of
        Inl e \<Rightarrow> Inl e
      | Inr ko \<Rightarrow>
          (let k' = k @ [ko] in
           case rate_expr c (last k') r_stoich of
             Inl e \<Rightarrow> Inl e
           | Inr r \<Rightarrow>
               (case accumulate r f (items net_stoich) of
                  Inl e \<Rightarrow> Inl e
                | Inr f' \<Rightarrow> rxn_loop lib c f' k' rest)))"

definition mk_exprs_symbs ::
  "'x sympy \<Rightarrow> reaction list \<Rightarrow> string list
     \<Rightarrow> error + ('x expr list \<times> 'x obj list \<times> 'x obj list)" where
  "mk_exprs_symbs lib rxns names =
     (case symbols lib names of
        Inl e \<Rightarrow> Inl e
      | Inr symbs \<Rightarrow>
          (let c = Map.empty(names [\<mapsto>] symbs);
               f = Map.empty(names [\<mapsto>] map (\<lambda>n. Num 0) names)
           in case rxn_loop lib c f [] rxns of
                Inl e \<Rightarrow> Inl e
              | Inr (f', k) \<Rightarrow>
                  (case comprehension (getitem f') names of
                     Inl e \<Rightarrow> Inl e
                   | Inr ydot \<Rightarrow> Inr (ydot, symbs, k))))"

subsection \<open>Meaning of expressions and the law of mass action\<close>

text \<open>
  Two expressions are equal as symbolic expressions when they take the same value under
  every assignment \<open>val\<close> of field elements to the atoms, in every field. A negative integer
  power is the inverse of the positive one (\<open>powi\<close>).
\<close>

primrec eval :: "('x \<Rightarrow> 'a) \<Rightarrow> 'x expr \<Rightarrow> 'a::field" where
  "eval val (Num n) = of_int n"
| "eval val (Sym x) = val x"
| "eval val (Add a b) = eval val a + eval val b"
| "eval val (Mul a b) = eval val a * eval val b"
| "eval val (PowE a p) = eval val a powi p"

text \<open>
  The concentration of a species is the value of the symbol SymPy made of its name, and a
  rate constant the value of the expression SymPy made of its name. (Where SymPy made no
  expression the code does not get as far as using one; the value \<open>0\<close> stands there.)
\<close>

definition expr_of :: "error + 'x obj \<Rightarrow> 'x expr" where
  "expr_of r = (case r of Inr (Expr e) \<Rightarrow> e | _ \<Rightarrow> Num 0)"

definition conc_of :: "'x sympy \<Rightarrow> ('x \<Rightarrow> 'a) \<Rightarrow> string \<Rightarrow> 'a::field" where
  "conc_of lib val s = eval val (expr_of (sym_symbol lib s))"

definition kval_of :: "'x sympy \<Rightarrow> ('x \<Rightarrow> 'a) \<Rightarrow> string \<Rightarrow> 'a::field" where
  "kval_of lib val coeff = eval val (expr_of (sym_S lib coeff))"

text \<open>
  The law of mass action, as the notebook states it:
  \<open>r\<^sub>j = k\<^sub>j * \<Prod>\<^sub>l c\<^sub>l ^ R\<^sub>j\<^sub>l\<close> and \<open>dc\<^sub>i/dt = \<Sum>\<^sub>j S\<^sub>i\<^sub>j * r\<^sub>j\<close>, where the
  net coefficient \<open>S\<^sub>i\<^sub>j\<close> of a species that a reaction does not mention is \<open>0\<close>.
\<close>

definition rate_law :: "(string \<Rightarrow> 'a) \<Rightarrow> (string \<Rightarrow> 'a) \<Rightarrow> reaction \<Rightarrow> 'a::field" where
  "rate_law conc kval rxn =
     (case rxn of (coeff, r_stoich, net_stoich) \<Rightarrow>
        kval coeff * prod_list (map (\<lambda>(s, p). conc s powi p) (items r_stoich)))"

definition net_coefficient :: "reaction \<Rightarrow> string \<Rightarrow> int" where
  "net_coefficient rxn n =
     (case rxn of (coeff, r_stoich, net_stoich) \<Rightarrow>
        (case DAList.lookup net_stoich n of None \<Rightarrow> 0 | Some m \<Rightarrow> m))"

definition mass_action ::
  "(string \<Rightarrow> 'a) \<Rightarrow> (string \<Rightarrow> 'a) \<Rightarrow> reaction list \<Rightarrow> string \<Rightarrow> 'a::field" where
  "mass_action conc kval rxns n =
     sum_list (map (\<lambda>rxn. of_int (net_coefficient rxn n) * rate_law conc kval rxn) rxns)"

text \<open>
  The inputs on which the call returns: SymPy makes an object of every species name; and
  for every reaction it makes an expression of the rate-constant name, every reactant is
  in \<open>names\<close> and its symbol is an expression, and every species of the net stoichiometry
  is in \<open>names\<close>.
\<close>

definition is_obj :: "error + 'x obj \<Rightarrow> bool" where
  "is_obj r = (case r of Inr ob \<Rightarrow> True | Inl e \<Rightarrow> False)"

definition is_expr :: "error + 'x obj \<Rightarrow> bool" where
  "is_expr r = (case r of Inr (Expr e) \<Rightarrow> True | _ \<Rightarrow> False)"

definition rxn_ok :: "'x sympy \<Rightarrow> string list \<Rightarrow> reaction \<Rightarrow> bool" where
  "rxn_ok lib names rxn =
     (case rxn of (coeff, r_stoich, net_stoich) \<Rightarrow>
        is_expr (sym_S lib coeff)
        \<and> list_all (\<lambda>(rk, p). rk \<in> set names \<and> is_expr (sym_symbol lib rk)) (items r_stoich)
        \<and> list_all (\<lambda>(net_key, net_mult). net_key \<in> set names) (items net_stoich))"

definition well_formed :: "'x sympy \<Rightarrow> reaction list \<Rightarrow> string list \<Rightarrow> bool" where
  "well_formed lib rxns names \<longleftrightarrow>
     list_all (\<lambda>n. is_obj (sym_symbol lib n)) names \<and> list_all (rxn_ok lib names) rxns"

text \<open>The weighted sum \<open>\<Sum>\<^sub>i w\<^sub>i * x\<^sub>i\<close> of a vector, over the positions both lists have.\<close>

fun weighted_sum :: "'a list \<Rightarrow> 'a list \<Rightarrow> 'a::field" where
  "weighted_sum (w # ws) (x # xs) = w * x + weighted_sum ws xs"
| "weighted_sum ws xs = 0"

text \<open>Auxiliary notions of the proofs: the table \<open>c\<close> of species symbols, and the total
  coefficient that the inner loop adds for one species.\<close>

definition name_table :: "'x sympy \<Rightarrow> string list \<Rightarrow> (string \<rightharpoonup> 'x obj) \<Rightarrow> bool" where
  "name_table lib names c \<longleftrightarrow>
     (\<forall>s. if s \<in> set names then (\<exists>ob. c s = Some ob \<and> sym_symbol lib s = Inr ob)
          else c s = None)"

definition contrib :: "(string \<times> int) list \<Rightarrow> string \<Rightarrow> int" where
  "contrib xs n = sum_list (map (\<lambda>(key, m). if key = n then m else 0) xs)"

subsection \<open>A sample of SymPy and the reaction systems of the notebooks\<close>

text \<open>
  SymPy on the strings used below: a plain identifier becomes a symbol, of a species or of
  a constant; \<^verbatim>\<open>sym.S('lambda')\<close> raises \<^verbatim>\<open>SympifyError\<close>, \<^verbatim>\<open>sym.S('2')\<close> is the
  integer 2, \<^verbatim>\<open>sym.symbols([''])\<close> raises \<^verbatim>\<open>ValueError\<close> and the name \<^verbatim>\<open>'x:2'\<close>
  gives a tuple of two symbols.
\<close>

datatype atom = Species string | Constant string

definition sample_sympy :: "atom sympy" where
  "sample_sympy = \<lparr>
     sym_S = (\<lambda>s. if s = ''lambda'' then Inl SympifyError
                  else if s = ''2'' then Inr (Expr (Num 2))
                  else Inr (Expr (Sym (Constant s)))),
     sym_symbol = (\<lambda>n. if n = '''' then Inl ValueError
                       else if n = ''x:2'' then Inr Other
                       else Inr (Expr (Sym (Species n)))) \<rparr>"

text \<open>Robertson's three-species example, the single first-order decay \<open>A \<rightarrow> B\<close> and a
  zeroth-order source of \<open>A\<close>.\<close>

definition robertson :: "reaction list" where
  "robertson =
     [(''k1'', dict_literal [(''A'', 1)], dict_literal [(''B'', 1), (''A'', - 1)]),
      (''k2'', dict_literal [(''B'', 1), (''C'', 1)], dict_literal [(''A'', 1), (''B'', - 1)]),
      (''k3'', dict_literal [(''B'', 2)], dict_literal [(''B'', - 1), (''C'', 1)])]"

definition first_order :: "reaction list" where
  "first_order = [(''k'', dict_literal [(''A'', 1)], dict_literal [(''B'', 1), (''A'', - 1)])]"

definition first_order_ydot :: "atom expr list" where
  "first_order_ydot =
     [Add (Num 0) (Mul (Num (- 1)) (Mul (Sym (Constant ''k'')) (PowE (Sym (Species ''A'')) 1))),
      Add (Num 0) (Mul (Num 1) (Mul (Sym (Constant ''k'')) (PowE (Sym (Species ''A'')) 1)))]"

definition zeroth_order_ydot :: "atom expr list" where
  "zeroth_order_ydot =
     [Add (Add (Num 0) (Mul (Num 1) (Mul (Sym (Constant ''k0'')) (Num 1))))
          (Mul (Num (- 1)) (Mul (Sym (Constant ''k'')) (PowE (Sym (Species ''A'')) 1))),
      Add (Num 0) (Mul (Num 1) (Mul (Sym (Constant ''k'')) (PowE (Sym (Species ''A'')) 1)))]"

section \<open>Integration with VODE: \<open>VODEsys.integrate_vode\<close>\<close>

text \<open>
  \<^verbatim>\<open>
  def integrate_vode(self, tout, y0, params=(), method='bdf', rtol=1e-8, atol=1e-8, **kwargs):
      def f(t, y, *args):
          f.ncall +=1
          return np.asarray(self.f_eval(y, t, *args))
      f.ncall = 0
      def j(t, y, *args):
          j.ncall += 1
          return np.asarray(self.j_eval(y, t, *args))
      j.ncall = 0
      r = ode(f, j)
      r.set_integrator('vode', method=method, rtol=rtol, atol=atol, **kwargs)
      if params:
          r.set_f_params(params)
          r.set_jac_params(params)
      yout = np.zeros((len(tout), len(y0)))
      yout[0, :] = y0
      r.set_initial_value(yout[0, :], tout[0])
      for idx in range(1, len(tout)):
          r.integrate(tout[idx])
          assert r.successful(), "Integration failed"
          yout[idx, :] = r.y
      return yout, {'num_rhs': f.ncall, 'num_dls_jac_evals': j.ncall}
  \<close>
  The solver object \<^verbatim>\<open>r\<close> belongs to SciPy and is a parameter of the model. One call
  \<^verbatim>\<open>r.integrate(t)\<close> is an arbitrary finite dialogue with the two callbacks it was given:
  it asks for right-hand sides and Jacobians at points of its choice, as often as it likes,
  and ends with a new solver state or an exception. Times \<open>'t\<close>, state components \<open>'v\<close>
  and Jacobians \<open>'j\<close> are abstract: no property below depends on their arithmetic.
\<close>

datatype ('t, 'v, 'j, 'a) solver_run =
    Return 'a
  | Raise error
  | Call_f 't "'v list" "'v list \<Rightarrow> ('t, 'v, 'j, 'a) solver_run"
  | Call_jac 't "'v list" "'j \<Rightarrow> ('t, 'v, 'j, 'a) solver_run"

text \<open>
  The configured solver (\<^verbatim>\<open>ode(f, j)\<close> after \<^verbatim>\<open>set_integrator\<close>) with state \<open>'s\<close>.
  \<^verbatim>\<open>set_initial_value\<close> receives the view \<^verbatim>\<open>yout[0, :]\<close>; it is passed by value here:
  the solver is taken to return new arrays and not to write through that view.
\<close>

record ('s, 't, 'v, 'j) ode =
  ode_set_initial_value :: "'v list \<Rightarrow> 't \<Rightarrow> 's"
  ode_integrate :: "'s \<Rightarrow> 't \<Rightarrow> ('t, 'v, 'j, 's) solver_run"
  ode_successful :: "'s \<Rightarrow> bool"
  ode_y :: "'s \<Rightarrow> 'v list"

text \<open>
  The callbacks \<^verbatim>\<open>self.f_eval(y, t, *args)\<close> and \<^verbatim>\<open>self.j_eval(y, t, *args)\<close> of the
  system are procedures: each invocation may raise and may change the state \<open>'w\<close> of the
  world outside the method, which it receives and returns.
\<close>

record ('t, 'v, 'j, 'p, 'w) odesys =
  f_eval :: "'v list \<Rightarrow> 't \<Rightarrow> 'p list list \<Rightarrow> 'w \<Rightarrow> (error + 'v list) \<times> 'w"
  j_eval :: "'v list \<Rightarrow> 't \<Rightarrow> 'p list list \<Rightarrow> 'w \<Rightarrow> (error + 'j) \<times> 'w"

text \<open>
  Events: \<open>F_eval\<close> and \<open>J_eval\<close> are invocations of \<^verbatim>\<open>self.f_eval\<close> and
  \<^verbatim>\<open>self.j_eval\<close>, and \<open>Step b\<close> is a completed \<^verbatim>\<open>r.integrate\<close> call after which
  \<^verbatim>\<open>r.successful()\<close> reports \<open>b\<close>.

  To count the invocations of the callbacks of any system, the system is observed: its
  callbacks are made to record each of their invocations in a log that is part of the
  world, before doing what they did. The log is written by the callback when it is invoked
  and by nothing else.
\<close>

datatype event = F_eval | J_eval | Step bool

definition observed ::
  "('t, 'v, 'j, 'p, 'w) odesys \<Rightarrow> ('t, 'v, 'j, 'p, event list \<times> 'w) odesys" where
  "observed self = \<lparr>
     f_eval = (\<lambda>y t args (log, w).
        case f_eval self y t args w of (res, w') \<Rightarrow> (res, (log @ [F_eval], w'))),
     j_eval = (\<lambda>y t args (log, w).
        case j_eval self y t args w of (res, w') \<Rightarrow> (res, (log @ [J_eval], w'))) \<rparr>"

text \<open>
  The state of one call: the two counters \<^verbatim>\<open>f.ncall\<close> and \<^verbatim>\<open>j.ncall\<close>, the world,
  and the trace of the steps made, kept for stating the properties.
\<close>

record 'w vstate =
  f_ncall :: int
  j_ncall :: int
  trace :: "event list"
  world :: 'w

text \<open>The closures \<^verbatim>\<open>f\<close> and \<^verbatim>\<open>j\<close>: increment the counter, then invoke the callback.\<close>

definition f_wrapper ::
  "('t, 'v, 'j, 'p, 'w) odesys \<Rightarrow> 't \<Rightarrow> 'v list \<Rightarrow> 'p list list \<Rightarrow> 'w vstate
     \<Rightarrow> (error + 'v list) \<times> 'w vstate" where
  "f_wrapper self t y args st =
     (let st1 = st\<lparr>f_ncall := f_ncall st + 1\<rparr>
      in case f_eval self y t args (world st1) of
           (res, w') \<Rightarrow> (res, st1\<lparr>world := w'\<rparr>))"

definition j_wrapper ::
  "('t, 'v, 'j, 'p, 'w) odesys \<Rightarrow> 't \<Rightarrow> 'v list \<Rightarrow> 'p list list \<Rightarrow> 'w vstate
     \<Rightarrow> (error + 'j) \<times> 'w vstate" where
  "j_wrapper self t y args st =
     (let st1 = st\<lparr>j_ncall := j_ncall st + 1\<rparr>
      in case j_eval self y t args (world st1) of
           (res, w') \<Rightarrow> (res, st1\<lparr>world := w'\<rparr>))"

text \<open>Running one solver dialogue against the two wrappers; an exception of a callback
  propagates out of the solver.\<close>

primrec run ::
  "('t, 'v, 'j, 'p, 'w) odesys \<Rightarrow> 'p list list \<Rightarrow> ('t, 'v, 'j, 'a) solver_run \<Rightarrow> 'w vstate
     \<Rightarrow> (error + 'a) \<times> 'w vstate" where
  "run self args (Return a) st = (Inr a, st)"
| "run self args (Raise e) st = (Inl e, st)"
| "run self args (Call_f t y cont) st =
     (case f_wrapper self t y args st of
        (Inl e, st') \<Rightarrow> (Inl e, st')
      | (Inr v, st') \<Rightarrow> run self args (cont v) st')"
| "run self args (Call_jac t y cont) st =
     (case j_wrapper self t y args st of
        (Inl e, st') \<Rightarrow> (Inl e, st')
      | (Inr v, st') \<Rightarrow> run self args (cont v) st')"

text \<open>
  A two-dimensional NumPy array: its shape and its rows. A row assignment
  \<^verbatim>\<open>a[idx, :] = v\<close> needs \<open>idx\<close> within the first dimension and a value of the row's
  length, or of length one (broadcast).
\<close>

record 'v ndarray =
  shape :: "nat \<times> nat"
  rows :: "'v list list"

definition np_zeros :: "nat \<times> nat \<Rightarrow> ('v::zero) ndarray" where
  "np_zeros shp = \<lparr>shape = shp, rows = replicate (fst shp) (replicate (snd shp) 0)\<rparr>"

definition set_row :: "'v ndarray \<Rightarrow> nat \<Rightarrow> 'v list \<Rightarrow> error + 'v ndarray" where
  "set_row a idx v =
     (if fst (shape a) \<le> idx then Inl IndexError
      else if length v = snd (shape a) then Inr (a\<lparr>rows := (rows a)[idx := v]\<rparr>)
      else if length v = 1
        then Inr (a\<lparr>rows := (rows a)[idx := replicate (snd (shape a)) (hd v)]\<rparr>)
      else Inl ValueError)"

definition get_row :: "'v ndarray \<Rightarrow> nat \<Rightarrow> error + 'v list" where
  "get_row a idx = (if fst (shape a) \<le> idx then Inl IndexError else Inr (rows a ! idx))"

definition get_item :: "'a list \<Rightarrow> nat \<Rightarrow> error + 'a" where
  "get_item xs idx = (if length xs \<le> idx then Inl IndexError else Inr (xs ! idx))"

text \<open>The loop \<^verbatim>\<open>for idx in range(1, len(tout))\<close>, over the list of its indices.\<close>

fun vode_loop ::
  "('t, 'v, 'j, 'p, 'w) odesys \<Rightarrow> ('s, 't, 'v, 'j) ode \<Rightarrow> 'p list list \<Rightarrow> 't list
     \<Rightarrow> 's \<Rightarrow> 'v ndarray \<Rightarrow> nat list \<Rightarrow> 'w vstate \<Rightarrow> (error + 'v ndarray) \<times> 'w vstate" where
  "vode_loop self r args tout s yout [] st = (Inr yout, st)"
| "vode_loop self r args tout s yout (idx # idxs) st =
     (case get_item tout idx of
        Inl e \<Rightarrow> (Inl e, st)
      | Inr t \<Rightarrow>
     (case run self args (ode_integrate r s t) st of
        (Inl e, st1) \<Rightarrow> (Inl e, st1)
      | (Inr s1, st1) \<Rightarrow>
          (let st2 = st1\<lparr>trace := trace st1 @ [Step (ode_successful r s1)]\<rparr> in
           if \<not> ode_successful r s1 then (Inl AssertionError, st2)
           else (case set_row yout idx (ode_y r s1) of
                   Inl e \<Rightarrow> (Inl e, st2)
                 | Inr yout1 \<Rightarrow> vode_loop self r args tout s1 yout1 idxs st2))))"

text \<open>
  The method, started in the world \<open>w\<close>, returning its result or exception together with
  the trace of its steps and the world it leaves. \<^verbatim>\<open>params\<close> is a tuple; when it is
  non-empty the callbacks receive it as their single extra argument.
\<close>

definition integrate_vode_traced ::
  "('t, 'v::zero, 'j, 'p, 'w) odesys \<Rightarrow> ('s, 't, 'v, 'j) ode \<Rightarrow> 't list \<Rightarrow> 'v list \<Rightarrow> 'p list
     \<Rightarrow> 'w \<Rightarrow> (error + ('v ndarray \<times> (string, int) alist)) \<times> event list \<times> 'w" where
  "integrate_vode_traced self r tout y0 params w =
     (let st0 = \<lparr>f_ncall = 0, j_ncall = 0, trace = [], world = w\<rparr>;
          args = (if params \<noteq> [] then [params] else []);
          yout = np_zeros (length tout, length y0)
      in case set_row yout 0 y0 of
           Inl e \<Rightarrow> (Inl e, trace st0, world st0)
         | Inr yout \<Rightarrow>
        (case get_row yout 0 of
           Inl e \<Rightarrow> (Inl e, trace st0, world st0)
         | Inr row0 \<Rightarrow>
        (case get_item tout 0 of
           Inl e \<Rightarrow> (Inl e, trace st0, world st0)
         | Inr t0 \<Rightarrow>
        (let s0 = ode_set_initial_value r row0 t0 in
         case vode_loop self r args tout s0 yout [1..<length tout] st0 of
           (Inl e, st) \<Rightarrow> (Inl e, trace st, world st)
         | (Inr yout, st) \<Rightarrow>
             (Inr (yout, dict_literal [(''num_rhs'', f_ncall st),
                                       (''num_dls_jac_evals'', j_ncall st)]),
              trace st, world st)))))"

definition integrate_vode ::
  "('t, 'v::zero, 'j, 'p, 'w) odesys \<Rightarrow> ('s, 't, 'v, 'j) ode \<Rightarrow> 't list \<Rightarrow> 'v list \<Rightarrow> 'p list
     \<Rightarrow> 'w \<Rightarrow> error + ('v ndarray \<times> (string, int) alist)" where
  "integrate_vode self r tout y0 params w = fst (integrate_vode_traced self r tout y0 params w)"


definition vode_world ::
  "('t, 'v::zero, 'j, 'p, 'w) odesys \<Rightarrow> ('s, 't, 'v, 'j) ode \<Rightarrow> 't list \<Rightarrow> 'v list \<Rightarrow> 'p list
     \<Rightarrow> 'w \<Rightarrow> 'w" where
  "vode_world self r tout y0 params w = snd (snd (integrate_vode_traced self r tout y0 params w))"



definition well_shaped :: "'v ndarray \<Rightarrow> bool" where
  "well_shaped a \<longleftrightarrow> length (rows a) = fst (shape a)
                     \<and> list_all (\<lambda>row. length row = snd (shape a)) (rows a)"

subsection \<open>A small solver and system\<close>

text \<open>
  A one-species decay \<open>dy/dt = - y\<close> whose callbacks leave the world alone, and a solver
  that takes one explicit Euler step per call, asking for the right-hand side twice and
  for the Jacobian once, and that reports failure once asked to integrate beyond
  \<open>t = 10\<close>.
\<close>

definition toy_solver :: "(rat \<times> rat list \<times> bool, rat, rat, rat list list) ode" where
  "toy_solver = \<lparr>
     ode_set_initial_value = (\<lambda>y t. (t, y, True)),
     ode_integrate = (\<lambda>(t0, y, ok) t.
        Call_f t0 y (\<lambda>dy. Call_jac t0 y (\<lambda>jac. Call_f t y (\<lambda>dy'.
          Return (t, map2 (\<lambda>a b. a + (t - t0) * b) y dy, ok \<and> t \<le> 10))))),
     ode_successful = (\<lambda>(t, y, ok). ok),
     ode_y = (\<lambda>(t, y, ok). y) \<rparr>"

definition decay :: "(rat, rat, rat list list, rat, unit) odesys" where
  "decay = \<lparr>
     f_eval = (\<lambda>y t args w. (Inr (map (\<lambda>a. - a) y), w)),
     j_eval = (\<lambda>y t args w. (Inr [[- 1]], w)) \<rparr>"

definition toy_yout :: "rat ndarray" where
  "toy_yout = \<lparr>shape = (3, 1), rows = [[8], [4], [2]]\<rparr>"

definition toy_info :: "(string, int) alist" where
  "toy_info = dict_literal [(''num_rhs'', 4), (''num_dls_jac_evals'', 2)]"

section \<open>The compiled module's name: \<open>CythonODEsys.setup\<close>\<close>

text \<open>
  \<^verbatim>\<open>
  self.mod_name = 'ode_cython_%s' % uuid.uuid4().hex[:10]
  \<close>
  The value of \<^verbatim>\<open>uuid.uuid4()\<close> is random and is the input of the model, as the
  128-bit integer \<^verbatim>\<open>UUID.int\<close>. Its \<^verbatim>\<open>hex\<close> attribute is \<^verbatim>\<open>'%032x' % self.int\<close>:
  32 lower-case hexadecimal digits, the most significant first. A version-4 UUID has the
  version nibble \<open>4\<close> (bits 76 to 79) and the variant bits \<open>10\<close> (bits 62 and 63); its
  other 122 bits are random.
\<close>

definition hex_digit :: "nat \<Rightarrow> char" where
  "hex_digit d = ''0123456789abcdef'' ! d"

definition uuid_hex :: "nat \<Rightarrow> string" where
  "uuid_hex u = map (\<lambda>i. hex_digit (u div 16 ^ (31 - i) mod 16)) [0..<32]"

definition is_uuid4 :: "nat \<Rightarrow> bool" where
  "is_uuid4 u \<longleftrightarrow> u < 2 ^ 128 \<and> u div 2 ^ 76 mod 16 = 4 \<and> u div 2 ^ 62 mod 4 = 2"

definition mod_name :: "nat \<Rightarrow> string" where
  "mod_name u = ''ode_cython_'' @ take 10 (uuid_hex u)"

section \<open>Method of lines: the finite-difference stencil of \<open>MOLsys\<close>\<close>

text \<open>
  \<^verbatim>\<open>
  def central_reference_bin(self, i):
      return np.clip(i, 1, self.ny - 2)

  def second_derivatives_spatial(self, i, y, out):
      k = self.central_reference_bin(i)
      for j in range(self.ny):
          left = y[(k-1)*self.ny + j]
          cent = y[(k  )*self.ny + j]
          rght = y[(k+1)*self.ny + j]
          out[j] = (left - 2*cent + rght)/self.dx**2
  \<close>
  \<^verbatim>\<open>np.clip(a, a_min, a_max)\<close> is \<^verbatim>\<open>minimum(a_max, maximum(a, a_min))\<close>; when
  \<^verbatim>\<open>a_min > a_max\<close> the result is \<^verbatim>\<open>a_max\<close>. Python integers are unbounded, so the
  indices are of type \<open>int\<close>. The attributes \<^verbatim>\<open>self.ny\<close> (number of species) and
  \<^verbatim>\<open>self.n_lines\<close> (number of bins) are parameters.
\<close>

definition clip :: "int \<Rightarrow> int \<Rightarrow> int \<Rightarrow> int" where
  "clip a a_min a_max = min a_max (max a a_min)"

definition central_reference_bin :: "int \<Rightarrow> int \<Rightarrow> int" where
  "central_reference_bin ny i = clip i 1 (ny - 2)"

text \<open>The three indices \<^verbatim>\<open>left\<close>, \<^verbatim>\<open>cent\<close>, \<^verbatim>\<open>rght\<close> that
  \<^verbatim>\<open>second_derivatives_spatial\<close> reads, and \<^verbatim>\<open>j_eval\<close> uses as column indices, for bin
  \<open>i\<close> and species \<open>j\<close>.\<close>

definition stencil_indices :: "int \<Rightarrow> int \<Rightarrow> int \<Rightarrow> int list" where
  "stencil_indices ny i j =
     (let k = central_reference_bin ny i
      in [(k - 1) * ny + j, k * ny + j, (k + 1) * ny + j])"

text \<open>The bounds of the flattened state vector of length \<open>ny * n_lines\<close>.\<close>

definition in_bounds :: "int \<Rightarrow> int \<Rightarrow> int \<Rightarrow> bool" where
  "in_bounds ny n_lines idx \<longleftrightarrow> 0 \<le> idx \<and> idx < ny * n_lines"

section \<open>Properties of \<open>mk_exprs_symbs\<close>\<close>

subsection \<open>Products, comprehensions and the two loops\<close>

lemma eval_foldl_Mul:
  "eval val (foldl Mul a xs) = eval val a * prod_list (map (eval val) xs)"
  by (induction xs arbitrary: a) (simp_all add: mult.assoc)

lemma eval_prod_seq:
  "eval val (prod_seq xs) = prod_list (map (eval val) xs)"
  by (cases xs) (simp_all add: prod_seq_def eval_foldl_Mul)

lemma comprehension_Inr_iff:
  "comprehension g xs = Inr ys \<longleftrightarrow> map g xs = map Inr ys"
proof (induction xs arbitrary: ys)
  case Nil
  show ?case by auto
next
  case (Cons x xs)
  show ?case
  proof (cases "g x")
    case (Inl e)
    then show ?thesis by (cases ys) auto
  next
    case (Inr v)
    show ?thesis
    proof (cases "comprehension g xs")
      case (Inl e)
      with Inr Cons.IH show ?thesis by (cases ys) auto
    next
      case inner: (Inr vs)
      with Inr Cons.IH [of vs] Cons.IH show ?thesis by (cases ys) auto
    qed
  qed
qed

lemma comprehension_total:
  "(\<And>x. x \<in> set xs \<Longrightarrow> g x = Inr (h x)) \<Longrightarrow> comprehension g xs = Inr (map h xs)"
  by (simp add: comprehension_Inr_iff)

lemma comprehension_Inr_all:
  assumes "comprehension g xs = Inr ys" and "x \<in> set xs"
  shows "\<exists>y. g x = Inr y"
proof -
  from assms(1) have eq: "map g xs = map Inr ys" by (simp add: comprehension_Inr_iff)
  from assms(2) have "g x \<in> g ` set xs" by (rule imageI)
  then have "g x \<in> set (map g xs)" by (simp only: set_map)
  then have "g x \<in> set (map Inr ys)" by (simp only: eq)
  then show ?thesis by auto
qed

lemma is_expr_iff: "is_expr r \<longleftrightarrow> (\<exists>e. r = Inr (Expr e))"
  by (auto simp: is_expr_def split: sum.splits obj.splits)

lemma is_obj_iff: "is_obj r \<longleftrightarrow> (\<exists>ob. r = Inr ob)"
  by (auto simp: is_obj_def split: sum.splits)

lemma expr_of_Expr [simp]: "expr_of (Inr (Expr e)) = e"
  by (simp add: expr_of_def)

text \<open>The element expression \<^verbatim>\<open>c[rk]**p\<close> of the comprehension in \<open>rate_expr\<close>.\<close>

lemma power_elem_ok:
  assumes "name_table lib names c" and "rk \<in> set names" and "is_expr (sym_symbol lib rk)"
  shows "(case getitem c rk of Inl e \<Rightarrow> Inl e | Inr s \<Rightarrow> pow_obj s p)
           = Inr (PowE (expr_of (sym_symbol lib rk)) p)"
proof -
  from assms(3) obtain e where e: "sym_symbol lib rk = Inr (Expr e)"
    by (auto simp: is_expr_iff)
  from assms(1) have "if rk \<in> set names then (\<exists>ob. c rk = Some ob \<and> sym_symbol lib rk = Inr ob)
      else c rk = None"
    unfolding name_table_def by blast
  with assms(2) obtain ob where "c rk = Some ob" "sym_symbol lib rk = Inr ob" by auto
  with e show ?thesis by (simp add: getitem_def pow_obj_def)
qed

lemma power_elem_Inr:
  assumes "name_table lib names c"
    and "(case getitem c rk of Inl e \<Rightarrow> Inl e | Inr s \<Rightarrow> pow_obj s p) = Inr y"
  shows "rk \<in> set names \<and> is_expr (sym_symbol lib rk)"
proof (cases "rk \<in> set names")
  case False
  from assms(1) have "if rk \<in> set names then (\<exists>ob. c rk = Some ob \<and> sym_symbol lib rk = Inr ob)
      else c rk = None"
    unfolding name_table_def by blast
  with False have "c rk = None" by simp
  with assms(2) show ?thesis by (simp add: getitem_def)
next
  case True
  from assms(1) have "if rk \<in> set names then (\<exists>ob. c rk = Some ob \<and> sym_symbol lib rk = Inr ob)
      else c rk = None"
    unfolding name_table_def by blast
  with True obtain ob where ob: "c rk = Some ob" "sym_symbol lib rk = Inr ob" by auto
  with assms(2) have "pow_obj ob p = Inr y" by (simp add: getitem_def)
  then obtain e where "ob = Expr e" by (cases ob) (simp_all add: pow_obj_def)
  with ob True show ?thesis by (simp add: is_expr_iff)
qed

lemma rate_expr_ok:
  assumes "name_table lib names c"
    and "list_all (\<lambda>(rk, p). rk \<in> set names \<and> is_expr (sym_symbol lib rk)) (items r_stoich)"
  shows "rate_expr c (Expr ke) r_stoich =
           Inr (Mul ke (prod_seq (map (\<lambda>(rk, p). PowE (expr_of (sym_symbol lib rk)) p)
                                      (items r_stoich))))"
proof -
  have "comprehension (\<lambda>(rk, p). case getitem c rk of Inl e \<Rightarrow> Inl e | Inr s \<Rightarrow> pow_obj s p)
          (items r_stoich)
        = Inr (map (\<lambda>(rk, p). PowE (expr_of (sym_symbol lib rk)) p) (items r_stoich))"
  proof (rule comprehension_total)
    fix x assume x: "x \<in> set (items r_stoich)"
    obtain rk p where rp: "x = (rk, p)" by (cases x)
    from assms(2) x rp have "rk \<in> set names" "is_expr (sym_symbol lib rk)"
      by (auto simp: list_all_iff)
    from power_elem_ok [OF assms(1) this, of p] rp
    show "(case x of (rk, p) \<Rightarrow> case getitem c rk of Inl e \<Rightarrow> Inl e | Inr s \<Rightarrow> pow_obj s p)
            = Inr (case x of (rk, p) \<Rightarrow> PowE (expr_of (sym_symbol lib rk)) p)"
      by simp
  qed
  then show ?thesis by (simp add: rate_expr_def mul_obj_def)
qed

lemma rate_expr_Inr:
  assumes "name_table lib names c" and "rate_expr c ko r_stoich = Inr r"
  shows "list_all (\<lambda>(rk, p). rk \<in> set names \<and> is_expr (sym_symbol lib rk)) (items r_stoich)
       \<and> (\<exists>ke. ko = Expr ke)"
proof -
  let ?g = "\<lambda>(rk, p). case getitem c rk of Inl e \<Rightarrow> Inl e | Inr s \<Rightarrow> pow_obj s p"
  from assms(2) obtain powers where powers: "comprehension ?g (items r_stoich) = Inr powers"
    and mul: "mul_obj ko (prod_seq powers) = Inr r"
    by (auto simp: rate_expr_def split: sum.splits)
  have "list_all (\<lambda>(rk, p). rk \<in> set names \<and> is_expr (sym_symbol lib rk)) (items r_stoich)"
    unfolding list_all_iff
  proof
    fix x assume x: "x \<in> set (items r_stoich)"
    obtain rk p where rp: "x = (rk, p)" by (cases x)
    from comprehension_Inr_all [OF powers x] rp obtain y where
      "(case getitem c rk of Inl e \<Rightarrow> Inl e | Inr s \<Rightarrow> pow_obj s p) = Inr y" by auto
    from power_elem_Inr [OF assms(1) this] rp
    show "case x of (rk, p) \<Rightarrow> rk \<in> set names \<and> is_expr (sym_symbol lib rk)" by simp
  qed
  moreover from mul have "\<exists>ke. ko = Expr ke" by (cases ko) (simp_all add: mul_obj_def)
  ultimately show ?thesis by simp
qed

lemma eval_rate_expr:
  assumes "sym_S lib coeff = Inr (Expr ke)"
  shows "eval val (Mul ke (prod_seq (map (\<lambda>(rk, p). PowE (expr_of (sym_symbol lib rk)) p)
                                       (items r_stoich))))
     = rate_law (conc_of lib val) (kval_of lib val) (coeff, r_stoich, net_stoich)"
  using assms
  by (simp add: rate_law_def eval_prod_seq kval_of_def conc_of_def comp_def case_prod_unfold)

lemma contrib_distinct:
  "distinct (map fst xs) \<Longrightarrow> contrib xs n = (case map_of xs n of None \<Rightarrow> 0 | Some m \<Rightarrow> m)"
proof (induction xs)
  case Nil
  show ?case by (simp add: contrib_def)
next
  case (Cons x xs)
  obtain key m where x: "x = (key, m)" by (cases x)
  show ?case
  proof (cases "key = n")
    case True
    with Cons.prems x have "map_of xs n = None"
      by (simp add: map_of_eq_None_iff)
    with Cons True x show ?thesis by (simp add: contrib_def)
  next
    case False
    with Cons x show ?thesis by (simp add: contrib_def)
  qed
qed

lemma contrib_items:
  "contrib (items net_stoich) n = net_coefficient (coeff, r_stoich, net_stoich) n"
  by (simp add: contrib_distinct items_def net_coefficient_def DAList.lookup.rep_eq)

lemma accumulate_ok:
  assumes "fst ` set xs \<subseteq> dom f"
  shows "\<exists>f'. accumulate r f xs = Inr f' \<and> dom f' = dom f \<and>
           (\<forall>(val :: 'x \<Rightarrow> 'a::field). \<forall>n\<in>dom f. eval val (the (f' n))
              = eval val (the (f n)) + of_int (contrib xs n) * eval val r)"
  using assms
proof (induction xs arbitrary: f)
  case Nil
  show ?case by (simp add: contrib_def)
next
  case (Cons x xs)
  obtain key m where x: "x = (key, m)" by (cases x)
  from Cons.prems x obtain old where old: "f key = Some old" by auto
  let ?f1 = "f(key \<mapsto> Add old (Mul (Num m) r))"
  have dom1: "dom ?f1 = dom f" using old by auto
  with Cons.prems have "fst ` set xs \<subseteq> dom ?f1" by auto
  from Cons.IH [OF this] obtain f' where f':
    "accumulate r ?f1 xs = Inr f'" "dom f' = dom ?f1"
    "\<forall>(val :: 'x \<Rightarrow> 'a). \<forall>n\<in>dom ?f1. eval val (the (f' n))
        = eval val (the (?f1 n)) + of_int (contrib xs n) * eval val r"
    by blast
  have step: "accumulate r f (x # xs) = Inr f'"
    using x old f'(1) by (simp add: getitem_def)
  have "\<forall>(val :: 'x \<Rightarrow> 'a). \<forall>n\<in>dom f. eval val (the (f' n))
          = eval val (the (f n)) + of_int (contrib (x # xs) n) * eval val r"
  proof (intro allI ballI)
    fix val :: "'x \<Rightarrow> 'a" and n assume n: "n \<in> dom f"
    then have "n \<in> dom ?f1" using dom1 by simp
    with f'(3) have e: "eval val (the (f' n))
        = eval val (the (?f1 n)) + of_int (contrib xs n) * eval val r" by blast
    show "eval val (the (f' n))
          = eval val (the (f n)) + of_int (contrib (x # xs) n) * eval val r"
    proof (cases "key = n")
      case True
      with e old x show ?thesis by (simp add: contrib_def algebra_simps)
    next
      case False
      with e x show ?thesis by (simp add: contrib_def)
    qed
  qed
  with step f'(2) dom1 show ?case by simp
qed

lemma accumulate_KeyError:
  "\<not> fst ` set xs \<subseteq> dom f \<Longrightarrow> accumulate r f xs = Inl KeyError"
proof (induction xs arbitrary: f)
  case Nil
  then show ?case by simp
next
  case (Cons x xs)
  obtain key m where x: "x = (key, m)" by (cases x)
  show ?case
  proof (cases "f key")
    case None
    with x show ?thesis by (simp add: getitem_def)
  next
    case (Some old)
    let ?f1 = "f(key \<mapsto> Add old (Mul (Num m) r))"
    have "dom ?f1 = dom f" using Some by auto
    with Cons.prems x Some have "\<not> fst ` set xs \<subseteq> dom ?f1" by auto
    then have "accumulate r ?f1 xs = Inl KeyError" by (rule Cons.IH)
    moreover have "accumulate r f (x # xs) = accumulate r ?f1 xs"
      unfolding x using Some by (simp add: getitem_def)
    ultimately show ?thesis by simp
  qed
qed

lemma accumulate_Inr_keys:
  "accumulate r f xs = Inr f' \<Longrightarrow> fst ` set xs \<subseteq> dom f"
  using accumulate_KeyError [of xs f r] by (cases "fst ` set xs \<subseteq> dom f") simp_all

lemma net_keys_iff:
  "list_all (\<lambda>(net_key, net_mult). net_key \<in> N) xs \<longleftrightarrow> fst ` set xs \<subseteq> N"
  by (auto simp: list_all_iff)

lemma mass_action_Nil: "mass_action conc kval [] n = 0"
  by (simp add: mass_action_def)

lemma mass_action_Cons:
  "mass_action conc kval (rxn # rxns) n
     = of_int (net_coefficient rxn n) * rate_law conc kval rxn + mass_action conc kval rxns n"
  by (simp add: mass_action_def)

lemma mass_action_append:
  "mass_action conc kval (xs @ ys) n = mass_action conc kval xs n + mass_action conc kval ys n"
  by (simp add: mass_action_def)

lemma rxn_loop_ok:
  assumes "name_table lib names c" and "dom f = set names" and "list_all (rxn_ok lib names) rxns"
  shows "\<exists>f' ks. rxn_loop lib c f k rxns = Inr (f', k @ ks)
           \<and> map (\<lambda>rxn. sym_S lib (fst rxn)) rxns = map Inr ks
           \<and> dom f' = set names
           \<and> (\<forall>(val :: 'x \<Rightarrow> 'a::field). \<forall>n\<in>set names. eval val (the (f' n))
                = eval val (the (f n))
                  + mass_action (conc_of lib val) (kval_of lib val) rxns n)"
  using assms(2,3)
proof (induction rxns arbitrary: f k)
  case Nil
  then show ?case by (simp add: mass_action_Nil)
next
  case (Cons rxn rxns)
  obtain coeff r_stoich net_stoich where rxn: "rxn = (coeff, r_stoich, net_stoich)"
    by (cases rxn)
  from Cons.prems(2) have head: "rxn_ok lib names rxn" and rest: "list_all (rxn_ok lib names) rxns"
    by simp_all
  from head rxn have ok:
    "is_expr (sym_S lib coeff)"
    "list_all (\<lambda>(rk, p). rk \<in> set names \<and> is_expr (sym_symbol lib rk)) (items r_stoich)"
    "list_all (\<lambda>(net_key, net_mult). net_key \<in> set names) (items net_stoich)"
    by (simp_all add: rxn_ok_def)
  from ok(1) obtain ke where ke: "sym_S lib coeff = Inr (Expr ke)" by (auto simp: is_expr_iff)
  let ?r = "Mul ke (prod_seq (map (\<lambda>(rk, p). PowE (expr_of (sym_symbol lib rk)) p)
                                   (items r_stoich)))"
  have r: "rate_expr c (last (k @ [Expr ke])) r_stoich = Inr ?r"
    using rate_expr_ok [OF assms(1) ok(2)] by simp
  from ok(3) Cons.prems(1) have sub: "fst ` set (items net_stoich) \<subseteq> dom f"
    by (simp add: net_keys_iff)
  from accumulate_ok [OF sub, of ?r] obtain f1 where f1:
    "accumulate ?r f (items net_stoich) = Inr f1" "dom f1 = dom f"
    "\<forall>(val :: 'x \<Rightarrow> 'a). \<forall>n\<in>dom f. eval val (the (f1 n))
        = eval val (the (f n)) + of_int (contrib (items net_stoich) n) * eval val ?r"
    by blast
  have dom1: "dom f1 = set names" using f1(2) Cons.prems(1) by simp
  from Cons.IH [OF dom1 rest, of "k @ [Expr ke]"] obtain f' ks where f':
    "rxn_loop lib c f1 (k @ [Expr ke]) rxns = Inr (f', (k @ [Expr ke]) @ ks)"
    "map (\<lambda>rxn. sym_S lib (fst rxn)) rxns = map Inr ks"
    "dom f' = set names"
    "\<forall>(val :: 'x \<Rightarrow> 'a). \<forall>n\<in>set names. eval val (the (f' n))
        = eval val (the (f1 n)) + mass_action (conc_of lib val) (kval_of lib val) rxns n"
    by blast
  have step: "rxn_loop lib c f k (rxn # rxns) = Inr (f', k @ (Expr ke # ks))"
    unfolding rxn using ke r f1(1) f'(1) by (simp add: Let_def)
  have ks: "map (\<lambda>rxn. sym_S lib (fst rxn)) (rxn # rxns) = map Inr (Expr ke # ks)"
    unfolding rxn using ke f'(2) by simp
  have "\<forall>(val :: 'x \<Rightarrow> 'a). \<forall>n\<in>set names. eval val (the (f' n))
          = eval val (the (f n))
            + mass_action (conc_of lib val) (kval_of lib val) (rxn # rxns) n"
  proof (intro allI ballI)
    fix val :: "'x \<Rightarrow> 'a" and n assume n: "n \<in> set names"
    then have "n \<in> dom f" using Cons.prems(1) by simp
    with f1(3) have "eval val (the (f1 n))
        = eval val (the (f n)) + of_int (contrib (items net_stoich) n) * eval val ?r"
      by blast
    moreover have "eval val ?r = rate_law (conc_of lib val) (kval_of lib val) rxn"
      unfolding rxn using ke by (rule eval_rate_expr)
    moreover have "contrib (items net_stoich) n = net_coefficient rxn n"
      unfolding rxn by (rule contrib_items)
    ultimately show "eval val (the (f' n))
          = eval val (the (f n))
            + mass_action (conc_of lib val) (kval_of lib val) (rxn # rxns) n"
      using f'(4) n by (simp add: mass_action_Cons)
  qed
  with step ks f'(3) show ?case by blast
qed

lemma rxn_loop_Inr:
  assumes "name_table lib names c" and "dom f = set names"
    and "rxn_loop lib c f k rxns = Inr res"
  shows "list_all (rxn_ok lib names) rxns"
  using assms(2,3)
proof (induction rxns arbitrary: f k)
  case Nil
  show ?case by simp
next
  case (Cons rxn rxns)
  obtain coeff r_stoich net_stoich where rxn: "rxn = (coeff, r_stoich, net_stoich)"
    by (cases rxn)
  from Cons.prems(2) obtain ko where ko: "sym_S lib coeff = Inr ko"
    unfolding rxn by (cases "sym_S lib coeff") simp_all
  from Cons.prems(2) ko obtain r where r: "rate_expr c ko r_stoich = Inr r"
    unfolding rxn by (cases "rate_expr c ko r_stoich") (simp_all add: Let_def)
  from Cons.prems(2) ko r obtain f1 where f1: "accumulate r f (items net_stoich) = Inr f1"
    unfolding rxn by (cases "accumulate r f (items net_stoich)") (simp_all add: Let_def)
  from Cons.prems(2) ko r f1 have rest: "rxn_loop lib c f1 (k @ [ko]) rxns = Inr res"
    unfolding rxn by (simp add: Let_def)
  from rate_expr_Inr [OF assms(1) r] obtain ke where
    reactants: "list_all (\<lambda>(rk, p). rk \<in> set names \<and> is_expr (sym_symbol lib rk)) (items r_stoich)"
    and ke: "ko = Expr ke" by blast
  from accumulate_Inr_keys [OF f1] Cons.prems(1)
  have nets: "list_all (\<lambda>(net_key, net_mult). net_key \<in> set names) (items net_stoich)"
    by (simp add: net_keys_iff)
  have head: "rxn_ok lib names rxn"
    unfolding rxn using ko ke reactants nets by (simp add: rxn_ok_def is_expr_iff)
  from accumulate_ok [OF accumulate_Inr_keys [OF f1], of r, where ?'a = rat] f1
  have "dom f1 = dom f" by auto
  with Cons.prems(1) have "dom f1 = set names" by simp
  from Cons.IH [OF this rest] head show ?case by simp
qed

lemma map_upds_map:
  "m(xs [\<mapsto>] map g xs) = (\<lambda>key. if key \<in> set xs then Some (g key) else m key)"
proof (induction xs arbitrary: m)
  case Nil
  show ?case by simp
next
  case (Cons x xs)
  show ?case by (simp add: Cons.IH fun_eq_iff)
qed

lemma initial_f:
  "Map.empty(names [\<mapsto>] map (\<lambda>n. Num 0) names)
     = (\<lambda>key. if key \<in> set names then Some (Num 0) else None)"
  by (rule map_upds_map)

lemma symbols_Inr:
  fixes lib :: "'a sympy"
  assumes "symbols lib names = Inr symbs"
  shows "map (sym_symbol lib) names = map Inr symbs"
    and "list_all (\<lambda>n. is_obj (sym_symbol lib n)) names"
    and "name_table lib names (Map.empty(names [\<mapsto>] symbs))"
proof -
  let ?h = "\<lambda>n. case sym_symbol lib n of Inr ob \<Rightarrow> ob | Inl e \<Rightarrow> Other"
  from assms show eq: "map (sym_symbol lib) names = map Inr symbs"
    by (simp add: symbols_def comprehension_Inr_iff)
  have each: "sym_symbol lib n = Inr (?h n)" if "n \<in> set names" for n
  proof -
    from assms that obtain ob where "sym_symbol lib n = Inr ob"
      unfolding symbols_def by (blast dest: comprehension_Inr_all)
    then show ?thesis by simp
  qed
  then show "list_all (\<lambda>n. is_obj (sym_symbol lib n)) names"
    unfolding list_all_iff is_obj_iff by blast
  have m: "map (sym_symbol lib) names = map Inr (map ?h names)"
    using each by (simp add: comp_def)
  have "(map Inr symbs :: (error + 'a obj) list) = map Inr (map ?h names)"
    using eq [symmetric] m by (rule trans)
  then have symbs: "symbs = map ?h names" by (rule map_injective) (simp add: inj_on_def)
  show "name_table lib names (Map.empty(names [\<mapsto>] symbs))"
    unfolding symbs map_upds_map name_table_def using each by simp
qed

lemma symbols_ok:
  assumes "list_all (\<lambda>n. is_obj (sym_symbol lib n)) names"
  shows "\<exists>symbs. symbols lib names = Inr symbs"
proof -
  let ?h = "\<lambda>n. case sym_symbol lib n of Inr ob \<Rightarrow> ob | Inl e \<Rightarrow> Other"
  have "comprehension (sym_symbol lib) names = Inr (map ?h names)"
  proof (rule comprehension_total)
    fix n assume "n \<in> set names"
    with assms obtain ob where "sym_symbol lib n = Inr ob"
      by (auto simp: list_all_iff is_obj_iff)
    then show "sym_symbol lib n = Inr (?h n)" by simp
  qed
  then show ?thesis by (simp add: symbols_def)
qed

subsection \<open>The function as a whole\<close>

text \<open>The call returns exactly on the well-formed inputs, and what it returns is
  determined by what SymPy made of the names.\<close>

lemma mk_exprs_symbs_ok:
  assumes "well_formed lib rxns names"
  shows "\<exists>ydot symbs k. mk_exprs_symbs lib rxns names = Inr (ydot, symbs, k)
           \<and> length ydot = length names
           \<and> map (sym_symbol lib) names = map Inr symbs
           \<and> map (\<lambda>rxn. sym_S lib (fst rxn)) rxns = map Inr k
           \<and> (\<forall>(val :: 'x \<Rightarrow> 'a::field).
                 map (eval val) ydot
                   = map (mass_action (conc_of lib val) (kval_of lib val) rxns) names)"
proof -
  from assms have names: "list_all (\<lambda>n. is_obj (sym_symbol lib n)) names"
    and rxns: "list_all (rxn_ok lib names) rxns"
    by (simp_all add: well_formed_def)
  from symbols_ok [OF names] obtain symbs where symbs: "symbols lib names = Inr symbs" ..
  let ?c = "Map.empty(names [\<mapsto>] symbs)"
  let ?f = "Map.empty(names [\<mapsto>] map (\<lambda>n. Num 0) names) :: string \<rightharpoonup> 'x expr"
  have domf: "dom ?f = set names" by (auto simp: initial_f split: if_splits)
  from rxn_loop_ok [OF symbols_Inr(3) [OF symbs] domf rxns, of "[]"] obtain f' k where f':
    "rxn_loop lib ?c ?f [] rxns = Inr (f', k)"
    "map (\<lambda>rxn. sym_S lib (fst rxn)) rxns = map Inr k"
    "dom f' = set names"
    "\<forall>(val :: 'x \<Rightarrow> 'a). \<forall>n\<in>set names. eval val (the (f' n))
        = eval val (the (?f n)) + mass_action (conc_of lib val) (kval_of lib val) rxns n"
    by auto
  have "comprehension (getitem f') names = Inr (map (\<lambda>n. the (f' n)) names)"
  proof (rule comprehension_total)
    fix n assume "n \<in> set names"
    with f'(3) obtain e where "f' n = Some e" by auto
    then show "getitem f' n = Inr (the (f' n))" by (simp add: getitem_def)
  qed
  with symbs f'(1) have res: "mk_exprs_symbs lib rxns names
      = Inr (map (\<lambda>n. the (f' n)) names, symbs, k)"
    by (simp add: mk_exprs_symbs_def Let_def)
  have "\<forall>(val :: 'x \<Rightarrow> 'a). map (eval val) (map (\<lambda>n. the (f' n)) names)
          = map (mass_action (conc_of lib val) (kval_of lib val) rxns) names"
    using f'(4) by (simp add: initial_f)
  with res f'(2) symbols_Inr(1) [OF symbs] show ?thesis by simp
qed

lemma mk_exprs_symbs_Inr_well_formed:
  assumes "mk_exprs_symbs lib rxns names = Inr res"
  shows "well_formed lib rxns names"
proof -
  from assms obtain symbs where symbs: "symbols lib names = Inr symbs"
    by (cases "symbols lib names") (simp_all add: mk_exprs_symbs_def)
  let ?c = "Map.empty(names [\<mapsto>] symbs)"
  let ?f = "Map.empty(names [\<mapsto>] map (\<lambda>n. Num 0) names) :: string \<rightharpoonup> 'a expr"
  have domf: "dom ?f = set names" by (auto simp: initial_f split: if_splits)
  from assms symbs obtain loop where loop: "rxn_loop lib ?c ?f [] rxns = Inr loop"
    by (cases "rxn_loop lib ?c ?f [] rxns") (simp_all add: mk_exprs_symbs_def Let_def)
  from rxn_loop_Inr [OF symbols_Inr(3) [OF symbs] domf loop] symbols_Inr(2) [OF symbs]
  show ?thesis by (simp add: well_formed_def)
qed

lemma mk_exprs_symbs_result:
  assumes "mk_exprs_symbs lib rxns names = Inr (ydot, symbs, k)"
  shows "length ydot = length names"
    and "map (sym_symbol lib) names = map Inr symbs"
    and "map (\<lambda>rxn. sym_S lib (fst rxn)) rxns = map Inr k"
    and "map (eval val) ydot = map (mass_action (conc_of lib val) (kval_of lib val) rxns) names"
proof -
  from assms have "well_formed lib rxns names" by (rule mk_exprs_symbs_Inr_well_formed)
  from mk_exprs_symbs_ok [OF this, where ?'a = 'b] assms
  have *: "length ydot = length names" "map (sym_symbol lib) names = map Inr symbs"
    "map (\<lambda>rxn. sym_S lib (fst rxn)) rxns = map Inr k"
    "\<forall>(val :: 'a \<Rightarrow> 'b). map (eval val) ydot
        = map (mass_action (conc_of lib val) (kval_of lib val) rxns) names"
    by auto
  from * show "length ydot = length names" "map (sym_symbol lib) names = map Inr symbs"
    "map (\<lambda>rxn. sym_S lib (fst rxn)) rxns = map Inr k" by simp_all
  from *(4) show "map (eval val) ydot
      = map (mass_action (conc_of lib val) (kval_of lib val) rxns) names" by blast
qed

lemma weighted_sum_add:
  "weighted_sum w (map (\<lambda>n. a n + b n) names)
     = weighted_sum w (map a names) + weighted_sum w (map b names)"
proof (induction w arbitrary: names)
  case Nil
  show ?case by simp
next
  case (Cons x w)
  show ?case by (cases names) (simp_all add: Cons.IH algebra_simps)
qed

lemma weighted_sum_scale:
  "weighted_sum w (map (\<lambda>n. a n * c) names) = weighted_sum w (map a names) * c"
proof (induction w arbitrary: names)
  case Nil
  show ?case by simp
next
  case (Cons x w)
  show ?case by (cases names) (simp_all add: Cons.IH distrib_right mult.assoc)
qed

lemma weighted_sum_zero: "weighted_sum w (map (\<lambda>n. 0) names) = 0"
proof (induction w arbitrary: names)
  case Nil
  show ?case by simp
next
  case (Cons x w)
  show ?case by (cases names) (simp_all add: Cons.IH)
qed

lemma weighted_sum_mass_action:
  "weighted_sum w (map (mass_action conc kval rxns) names)
     = sum_list (map (\<lambda>rxn. weighted_sum w (map (\<lambda>n. of_int (net_coefficient rxn n)) names)
                            * rate_law conc kval rxn) rxns)"
proof (induction rxns)
  case Nil
  show ?case by (simp add: mass_action_Nil weighted_sum_zero)
next
  case (Cons rxn rxns)
  have "mass_action conc kval (rxn # rxns)
      = (\<lambda>n. of_int (net_coefficient rxn n) * rate_law conc kval rxn + mass_action conc kval rxns n)"
    by (rule ext) (rule mass_action_Cons)
  then have "weighted_sum w (map (mass_action conc kval (rxn # rxns)) names)
      = weighted_sum w (map (\<lambda>n. of_int (net_coefficient rxn n) * rate_law conc kval rxn
                                   + mass_action conc kval rxns n) names)"
    by (simp only:)
  also have "\<dots> = weighted_sum w (map (\<lambda>n. of_int (net_coefficient rxn n)) names)
                      * rate_law conc kval rxn
                   + weighted_sum w (map (mass_action conc kval rxns) names)"
    by (simp only: weighted_sum_add weighted_sum_scale)
  finally show ?case by (simp add: Cons.IH)
qed

subsection \<open>Runs on the sample\<close>

lemma robertson_well_formed: "well_formed sample_sympy robertson [''A'', ''B'', ''C'']"
  by code_simp

lemma first_order_result:
  "mk_exprs_symbs sample_sympy first_order [''A'', ''B'']
     = Inr (first_order_ydot, [Expr (Sym (Species ''A'')), Expr (Sym (Species ''B''))],
            [Expr (Sym (Constant ''k''))])"
  by code_simp

lemma first_order_well_formed: "well_formed sample_sympy first_order [''A'', ''B'']"
  by code_simp

lemma zeroth_order_well_formed:
  "well_formed sample_sympy
     ([] @ (''k0'', dict_literal [], dict_literal [(''A'', 1)]) # first_order) [''A'', ''B'']"
  by code_simp

lemma zeroth_order_result:
  "mk_exprs_symbs sample_sympy
     ([] @ (''k0'', dict_literal [], dict_literal [(''A'', 1)]) # first_order) [''A'', ''B'']
     = Inr (zeroth_order_ydot, [Expr (Sym (Species ''A'')), Expr (Sym (Species ''B''))],
            [Expr (Sym (Constant ''k0'')), Expr (Sym (Constant ''k''))])"
  by code_simp

text \<open>Where SymPy raises or returns no symbol: a rate constant named \<^verbatim>\<open>lambda\<close>, a rate
  constant named \<^verbatim>\<open>2\<close>, an empty species name, and a species name with a range that is
  used as a reactant.\<close>

lemma mk_exprs_symbs_sympify_error:
  "mk_exprs_symbs sample_sympy [(''lambda'', dict_literal [(''A'', 1)], dict_literal [(''A'', - 1)])]
     [''A''] = Inl SympifyError"
  by code_simp

lemma mk_exprs_symbs_number_rate:
  "mk_exprs_symbs sample_sympy [(''2'', dict_literal [(''A'', 1)], dict_literal [(''A'', - 1)])]
     [''A'']
   = Inr ([Add (Num 0) (Mul (Num (- 1)) (Mul (Num 2) (PowE (Sym (Species ''A'')) 1)))],
          [Expr (Sym (Species ''A''))], [Expr (Num 2)])"
  by code_simp

lemma mk_exprs_symbs_empty_name:
  "mk_exprs_symbs sample_sympy first_order [''A'', ''B'', ''''] = Inl ValueError"
  by code_simp

lemma mk_exprs_symbs_range_name:
  "mk_exprs_symbs sample_sympy [(''k'', dict_literal [(''x:2'', 1)], dict_literal [])] [''x:2'']
     = Inl TypeError"
  by code_simp

subsection \<open>The claims about \<open>mk_exprs_symbs\<close>\<close>

text \<open>
  Claim C1, as amended. The claim as written speaks of every reaction list and every
  species list, but the call does not return for every input: a reaction that mentions a
  species missing from \<open>names\<close> makes \<^verbatim>\<open>c[rk]\<close> or \<^verbatim>\<open>f[net_key]\<close> raise \<open>KeyError\<close>,
  and SymPy may raise on a name or make something other than an expression of it. For
  every well-formed input (SymPy makes an object of every species name and an expression of
  every rate-constant name and of every reactant's name, and every species that a reaction
  mentions is in \<open>names\<close>), \<open>mk_exprs_symbs\<close> returns derivative expressions equal to the
  law of mass action: under every valuation, the expression at each position has the value
  \<open>\<Sum>\<^sub>j S\<^sub>i\<^sub>j * r\<^sub>j\<close> with \<open>r\<^sub>j = k\<^sub>j * \<Prod>\<^sub>l c\<^sub>l ^ R\<^sub>j\<^sub>l\<close> for the species at that
  position, where \<open>k\<^sub>j\<close> is the value of what \<^verbatim>\<open>sym.S\<close> made of the rate-constant name
  and \<open>c\<^sub>l\<close> the value of the species' symbol.
\<close>

theorem mk_exprs_symbs_mass_action:
  assumes "well_formed lib rxns names"
  shows "\<exists>ydot symbs k. mk_exprs_symbs lib rxns names = Inr (ydot, symbs, k) \<and>
           (\<forall>(val :: 'x \<Rightarrow> 'a::field).
              map (eval val) ydot
                = map (mass_action (conc_of lib val) (kval_of lib val) rxns) names)"
  using mk_exprs_symbs_ok [OF assms, where ?'a = 'a] by blast

theorem mk_exprs_symbs_mass_action_witness:
  "\<exists>ydot symbs k. mk_exprs_symbs sample_sympy robertson [''A'', ''B'', ''C'']
        = Inr (ydot, symbs, k) \<and>
      (\<forall>(val :: atom \<Rightarrow> rat).
         map (eval val) ydot
           = map (mass_action (conc_of sample_sympy val) (kval_of sample_sympy val) robertson)
                 [''A'', ''B'', ''C''])"
  using mk_exprs_symbs_mass_action [OF robertson_well_formed] by blast

text \<open>
  Claim C1 as written fails: with the species list \<^verbatim>\<open>['A']\<close>, the reaction
  \<^verbatim>\<open>('k1', {'A': 1}, {'B': 1, 'A': -1})\<close> raises \<open>KeyError\<close> at \<^verbatim>\<open>f['B']\<close>.
\<close>

theorem mk_exprs_symbs_unknown_species:
  "mk_exprs_symbs sample_sympy
     [(''k1'', dict_literal [(''A'', 1)], dict_literal [(''B'', 1), (''A'', - 1)])] [''A'']
     = Inl KeyError"
  by code_simp

text \<open>
  Claim C4. On every well-formed input \<open>mk_exprs_symbs\<close> returns a triple, and every
  triple it returns is ordered: there is one derivative expression per entry of \<open>names\<close>,
  the expression at position \<open>i\<close> is the derivative of the species \<open>names ! i\<close>, the
  symbol list holds what \<^verbatim>\<open>sym.symbols\<close> made of the names, in the order of \<open>names\<close>,
  and the third component holds what \<^verbatim>\<open>sym.S\<close> made of the rate-constant names, in the
  order of the reactions.
\<close>

theorem mk_exprs_symbs_ordered:
  "(well_formed lib rxns names
      \<longrightarrow> (\<exists>ydot symbs k. mk_exprs_symbs lib rxns names = Inr (ydot, symbs, k)))
   \<and> (\<forall>ydot symbs k. mk_exprs_symbs lib rxns names = Inr (ydot, symbs, k) \<longrightarrow>
         length ydot = length names
       \<and> (\<forall>i<length names. \<forall>(val :: 'x \<Rightarrow> 'a::field).
             eval val (ydot ! i)
               = mass_action (conc_of lib val) (kval_of lib val) rxns (names ! i))
       \<and> map (sym_symbol lib) names = map Inr symbs
       \<and> map (\<lambda>(coeff, r_stoich, net_stoich). sym_S lib coeff) rxns = map Inr k)"
proof (intro conjI impI allI)
  assume "well_formed lib rxns names"
  from mk_exprs_symbs_ok [OF this, where ?'a = 'a]
  show "\<exists>ydot symbs k. mk_exprs_symbs lib rxns names = Inr (ydot, symbs, k)" by blast
next
  fix ydot symbs k
  assume r: "mk_exprs_symbs lib rxns names = Inr (ydot, symbs, k)"
  show len: "length ydot = length names" using r by (rule mk_exprs_symbs_result(1))
  show "map (sym_symbol lib) names = map Inr symbs" using r by (rule mk_exprs_symbs_result(2))
  show "map (\<lambda>(coeff, r_stoich, net_stoich). sym_S lib coeff) rxns = map Inr k"
    using mk_exprs_symbs_result(3) [OF r] by (simp add: case_prod_unfold)
  fix i and val :: "'x \<Rightarrow> 'a"
  assume i: "i < length names"
  from mk_exprs_symbs_result(4) [OF r, of val]
  have "map (eval val) ydot ! i
      = map (mass_action (conc_of lib val) (kval_of lib val) rxns) names ! i" by simp
  with i len show "eval val (ydot ! i)
      = mass_action (conc_of lib val) (kval_of lib val) rxns (names ! i)" by simp
qed

theorem mk_exprs_symbs_ordered_witness:
  "well_formed sample_sympy first_order [''A'', ''B'']
   \<and> mk_exprs_symbs sample_sympy first_order [''A'', ''B'']
       = Inr (first_order_ydot, [Expr (Sym (Species ''A'')), Expr (Sym (Species ''B''))],
              [Expr (Sym (Constant ''k''))])
   \<and> length first_order_ydot = length [''A'', ''B'']
   \<and> (\<forall>(val :: atom \<Rightarrow> rat). eval val (first_order_ydot ! 0)
         = mass_action (conc_of sample_sympy val) (kval_of sample_sympy val) first_order ''A'')
   \<and> (\<forall>(val :: atom \<Rightarrow> rat). eval val (first_order_ydot ! 1)
         = mass_action (conc_of sample_sympy val) (kval_of sample_sympy val) first_order ''B'')
   \<and> map (sym_symbol sample_sympy) [''A'', ''B'']
       = map Inr [Expr (Sym (Species ''A'')), Expr (Sym (Species ''B''))]
   \<and> map (\<lambda>(coeff, r_stoich, net_stoich). sym_S sample_sympy coeff) first_order
       = map Inr [Expr (Sym (Constant ''k''))]"
proof -
  note ordered = mk_exprs_symbs_ordered [of sample_sympy first_order "[''A'', ''B'']",
      where ?'a = rat]
  from ordered first_order_well_formed
  have ex: "\<exists>ydot symbs k. mk_exprs_symbs sample_sympy first_order [''A'', ''B'']
      = Inr (ydot, symbs, k)" by blast
  from ordered first_order_result have props:
    "length first_order_ydot = length [''A'', ''B'']"
    "\<forall>i<length [''A'', ''B'']. \<forall>(val :: atom \<Rightarrow> rat). eval val (first_order_ydot ! i)
       = mass_action (conc_of sample_sympy val) (kval_of sample_sympy val) first_order
           ([''A'', ''B''] ! i)"
    "map (sym_symbol sample_sympy) [''A'', ''B'']
       = map Inr [Expr (Sym (Species ''A'')), Expr (Sym (Species ''B''))]"
    "map (\<lambda>(coeff, r_stoich, net_stoich). sym_S sample_sympy coeff) first_order
       = map Inr [Expr (Sym (Constant ''k''))]"
    by blast+
  from props(2) [rule_format, of 0] have p0: "\<forall>(val :: atom \<Rightarrow> rat). eval val (first_order_ydot ! 0)
         = mass_action (conc_of sample_sympy val) (kval_of sample_sympy val) first_order ''A''"
    by simp
  from props(2) [rule_format, of 1] have p1: "\<forall>(val :: atom \<Rightarrow> rat). eval val (first_order_ydot ! 1)
         = mass_action (conc_of sample_sympy val) (kval_of sample_sympy val) first_order ''B''"
    by simp
  from first_order_well_formed first_order_result props(1,3,4) p0 p1 show ?thesis by blast
qed

text \<open>
  Claim C5. For a weight vector \<open>w\<close>, aligned with \<open>names\<close>, such that every reaction's
  \<open>w\<close>-weighted sum of net stoichiometric coefficients is zero, the \<open>w\<close>-weighted sum of
  the derivative expressions that \<open>mk_exprs_symbs\<close> returns is zero as a symbolic
  expression: it has the value \<open>0\<close> under every valuation of the symbols.
\<close>

theorem closed_network_conserved:
  assumes "mk_exprs_symbs lib rxns names = Inr (ydot, symbs, k)"
    and "\<forall>rxn\<in>set rxns. weighted_sum w (map (\<lambda>n. of_int (net_coefficient rxn n)) names) = 0"
  shows "weighted_sum w (map (eval val) ydot) = 0"
proof -
  let ?conc = "conc_of lib val" and ?kval = "kval_of lib val"
  have "weighted_sum w (map (eval val) ydot)
      = weighted_sum w (map (mass_action ?conc ?kval rxns) names)"
    by (simp only: mk_exprs_symbs_result(4) [OF assms(1)])
  also have "\<dots> = sum_list (map (\<lambda>rxn. weighted_sum w (map (\<lambda>n. of_int (net_coefficient rxn n)) names)
                            * rate_law ?conc ?kval rxn) rxns)"
    by (rule weighted_sum_mass_action)
  also have "\<dots> = sum_list (map (\<lambda>rxn. 0) rxns)"
    using assms(2) by (intro arg_cong [where f = sum_list] map_cong) simp_all
  also have "\<dots> = 0" by simp
  finally show ?thesis .
qed

theorem closed_network_conserved_witness:
  "mk_exprs_symbs sample_sympy first_order [''A'', ''B'']
     = Inr (first_order_ydot, [Expr (Sym (Species ''A'')), Expr (Sym (Species ''B''))],
            [Expr (Sym (Constant ''k''))])
   \<and> weighted_sum [1, 1 :: rat]
         (map (\<lambda>n. of_int (net_coefficient (hd first_order) n)) [''A'', ''B'']) = 0
   \<and> (\<forall>val. weighted_sum [1, 1 :: rat] (map (eval val) first_order_ydot) = 0)"
proof -
  have closed: "\<forall>rxn\<in>set first_order.
      weighted_sum [1, 1 :: rat] (map (\<lambda>n. of_int (net_coefficient rxn n)) [''A'', ''B'']) = 0"
    by (simp add: first_order_def net_coefficient_def dict_literal_def DAList.lookup_update)
  then have hd: "weighted_sum [1, 1 :: rat]
         (map (\<lambda>n. of_int (net_coefficient (hd first_order) n)) [''A'', ''B'']) = 0"
    by (simp add: first_order_def)
  from closed_network_conserved [OF first_order_result closed] first_order_result hd
  show ?thesis by blast
qed

text \<open>
  Claim C10. Let a reaction of the list have an empty reactant mapping. On every
  well-formed input \<open>mk_exprs_symbs\<close> returns; and whenever it returns, the reaction's
  rate expression is \<^verbatim>\<open>k*1\<close>, whose value is the rate constant alone (the empty product
  is \<open>1\<close>), and this rate is accumulated into the derivative of every species with the
  reaction's net coefficient: the derivatives are those of the other reactions plus net
  coefficient times rate constant.
\<close>

theorem zeroth_order_reaction:
  assumes "items r_stoich = []"
  shows "(well_formed lib (pre @ (coeff, r_stoich, net_stoich) # post) names
            \<longrightarrow> (\<exists>ydot symbs k. mk_exprs_symbs lib (pre @ (coeff, r_stoich, net_stoich) # post) names
                     = Inr (ydot, symbs, k)))
       \<and> (\<forall>ydot symbs k.
            mk_exprs_symbs lib (pre @ (coeff, r_stoich, net_stoich) # post) names
              = Inr (ydot, symbs, k) \<longrightarrow>
            (\<exists>ke. sym_S lib coeff = Inr (Expr ke)
                \<and> (\<forall>c. rate_expr c (Expr ke) r_stoich = Inr (Mul ke (Num 1)))
                \<and> (\<forall>(val :: 'x \<Rightarrow> 'a::field).
                      eval val (Mul ke (Num 1)) = kval_of lib val coeff
                    \<and> map (eval val) ydot
                        = map (\<lambda>n. mass_action (conc_of lib val) (kval_of lib val) (pre @ post) n
                                    + of_int (net_coefficient (coeff, r_stoich, net_stoich) n)
                                      * kval_of lib val coeff)
                              names)))"
proof (intro conjI impI allI)
  assume "well_formed lib (pre @ (coeff, r_stoich, net_stoich) # post) names"
  from mk_exprs_symbs_ok [OF this, where ?'a = 'a]
  show "\<exists>ydot symbs k. mk_exprs_symbs lib (pre @ (coeff, r_stoich, net_stoich) # post) names
      = Inr (ydot, symbs, k)" by blast
next
  fix ydot symbs k
  let ?rxn = "(coeff, r_stoich, net_stoich)"
  assume r: "mk_exprs_symbs lib (pre @ ?rxn # post) names = Inr (ydot, symbs, k)"
  then have "well_formed lib (pre @ ?rxn # post) names" by (rule mk_exprs_symbs_Inr_well_formed)
  then have "rxn_ok lib names ?rxn" by (simp add: well_formed_def)
  then obtain ke where ke: "sym_S lib coeff = Inr (Expr ke)"
    by (auto simp: rxn_ok_def is_expr_iff)
  have rate: "\<forall>c. rate_expr c (Expr ke) r_stoich = Inr (Mul ke (Num 1))"
    using assms by (simp add: rate_expr_def prod_seq_def mul_obj_def)
  have "\<forall>(val :: 'x \<Rightarrow> 'a).
          eval val (Mul ke (Num 1)) = kval_of lib val coeff
        \<and> map (eval val) ydot
            = map (\<lambda>n. mass_action (conc_of lib val) (kval_of lib val) (pre @ post) n
                        + of_int (net_coefficient ?rxn n) * kval_of lib val coeff)
                  names"
  proof (intro allI conjI)
    fix val :: "'x \<Rightarrow> 'a"
    show "eval val (Mul ke (Num 1)) = kval_of lib val coeff"
      using ke by (simp add: kval_of_def)
    have rl: "rate_law (conc_of lib val) (kval_of lib val) ?rxn = kval_of lib val coeff"
      using assms by (simp add: rate_law_def)
    have "map (eval val) ydot
        = map (mass_action (conc_of lib val) (kval_of lib val) (pre @ ?rxn # post)) names"
      using r by (rule mk_exprs_symbs_result(4))
    also have "\<dots> = map (\<lambda>n. mass_action (conc_of lib val) (kval_of lib val) (pre @ post) n
                        + of_int (net_coefficient ?rxn n) * kval_of lib val coeff)
                  names"
      by (simp add: mass_action_append mass_action_Cons rl)
    finally show "map (eval val) ydot
            = map (\<lambda>n. mass_action (conc_of lib val) (kval_of lib val) (pre @ post) n
                        + of_int (net_coefficient ?rxn n) * kval_of lib val coeff)
                  names" .
  qed
  with ke rate show "\<exists>ke. sym_S lib coeff = Inr (Expr ke)
                \<and> (\<forall>c. rate_expr c (Expr ke) r_stoich = Inr (Mul ke (Num 1)))
                \<and> (\<forall>(val :: 'x \<Rightarrow> 'a).
                      eval val (Mul ke (Num 1)) = kval_of lib val coeff
                    \<and> map (eval val) ydot
                        = map (\<lambda>n. mass_action (conc_of lib val) (kval_of lib val) (pre @ post) n
                                    + of_int (net_coefficient ?rxn n)
                                      * kval_of lib val coeff)
                              names)"
    by blast
qed

theorem zeroth_order_reaction_witness:
  "items (dict_literal [] :: int dict) = []
   \<and> well_formed sample_sympy
        ([] @ (''k0'', dict_literal [], dict_literal [(''A'', 1)]) # first_order) [''A'', ''B'']
   \<and> mk_exprs_symbs sample_sympy
        ([] @ (''k0'', dict_literal [], dict_literal [(''A'', 1)]) # first_order) [''A'', ''B'']
       = Inr (zeroth_order_ydot, [Expr (Sym (Species ''A'')), Expr (Sym (Species ''B''))],
              [Expr (Sym (Constant ''k0'')), Expr (Sym (Constant ''k''))])
   \<and> sym_S sample_sympy ''k0'' = Inr (Expr (Sym (Constant ''k0'')))
   \<and> (\<forall>c. rate_expr c (Expr (Sym (Constant ''k0''))) (dict_literal [])
           = Inr (Mul (Sym (Constant ''k0'')) (Num 1)))
   \<and> (\<forall>(val :: atom \<Rightarrow> rat).
         eval val (Mul (Sym (Constant ''k0'')) (Num 1)) = kval_of sample_sympy val ''k0''
       \<and> map (eval val) zeroth_order_ydot
           = map (\<lambda>n. mass_action (conc_of sample_sympy val) (kval_of sample_sympy val)
                         ([] @ first_order) n
                       + of_int (net_coefficient
                                   (''k0'', dict_literal [], dict_literal [(''A'', 1)]) n)
                         * kval_of sample_sympy val ''k0'')
                 [''A'', ''B''])"
proof -
  have empty: "items (dict_literal [] :: int dict) = []"
    by (simp add: items_def dict_literal_def DAList.empty.rep_eq)
  have k0: "sym_S sample_sympy ''k0'' = Inr (Expr (Sym (Constant ''k0'')))"
    by (simp add: sample_sympy_def)
  note zeroth = zeroth_order_reaction [OF empty, of sample_sympy "[]" "''k0''"
      "dict_literal [(''A'', 1)]" first_order "[''A'', ''B'']", where ?'a = rat]
  from zeroth zeroth_order_result obtain ke where ke:
    "sym_S sample_sympy ''k0'' = Inr (Expr ke)"
    "\<forall>c. rate_expr c (Expr ke) (dict_literal []) = Inr (Mul ke (Num 1))"
    "\<forall>(val :: atom \<Rightarrow> rat).
         eval val (Mul ke (Num 1)) = kval_of sample_sympy val ''k0''
       \<and> map (eval val) zeroth_order_ydot
           = map (\<lambda>n. mass_action (conc_of sample_sympy val) (kval_of sample_sympy val)
                         ([] @ first_order) n
                       + of_int (net_coefficient
                                   (''k0'', dict_literal [], dict_literal [(''A'', 1)]) n)
                         * kval_of sample_sympy val ''k0'')
                 [''A'', ''B'']"
    by blast
  from ke(1) k0 have "ke = Sym (Constant ''k0'')" by simp
  with ke empty k0 zeroth_order_well_formed zeroth_order_result show ?thesis by blast
qed

section \<open>Properties of \<open>integrate_vode\<close>\<close>

subsection \<open>Invariants of the solver dialogue and of the loop\<close>











lemma set_row_well_shaped:
  "well_shaped a \<Longrightarrow> set_row a idx v = Inr b \<Longrightarrow>
     well_shaped b \<and> shape b = shape a \<and> (\<forall>i. i \<noteq> idx \<longrightarrow> rows b ! i = rows a ! i)"
  by (auto simp: set_row_def well_shaped_def list_all_iff split: if_splits
           dest!: set_update_subset_insert [THEN subsetD])

lemma set_row_same:
  "well_shaped a \<Longrightarrow> length v = snd (shape a) \<Longrightarrow> set_row a idx v = Inr b \<Longrightarrow> rows b ! idx = v"
  by (auto simp: set_row_def well_shaped_def split: if_splits)

lemma vode_loop_array:
  "well_shaped yout \<Longrightarrow> fst (vode_loop self r args tout s yout idxs st) = Inr out \<Longrightarrow>
     well_shaped out \<and> shape out = shape yout \<and>
     (\<forall>i. i \<notin> set idxs \<longrightarrow> rows out ! i = rows yout ! i)"
proof (induction idxs arbitrary: s yout st)
  case Nil
  then show ?case by simp
next
  case (Cons idx idxs)
  from Cons.prems(2) obtain t where t: "get_item tout idx = Inr t"
    by (cases "get_item tout idx") simp_all
  obtain res st1 where run: "run self args (ode_integrate r s t) st = (res, st1)"
    by (cases "run self args (ode_integrate r s t) st")
  from Cons.prems(2) t run obtain s1 where s1: "res = Inr s1"
    by (cases res) simp_all
  let ?st2 = "st1\<lparr>trace := trace st1 @ [Step (ode_successful r s1)]\<rparr>"
  from Cons.prems(2) t run s1 have ok: "ode_successful r s1"
    by (cases "ode_successful r s1") (simp_all add: Let_def)
  from Cons.prems(2) t run s1 ok obtain yout1 where y1: "set_row yout idx (ode_y r s1) = Inr yout1"
    by (cases "set_row yout idx (ode_y r s1)") (simp_all add: Let_def)
  have unfold: "vode_loop self r args tout s yout (idx # idxs) st
        = vode_loop self r args tout s1 yout1 idxs ?st2"
    using t run s1 ok y1 by (simp add: Let_def)
  from set_row_well_shaped [OF Cons.prems(1) y1] have w1:
    "well_shaped yout1" "shape yout1 = shape yout" "\<forall>i. i \<noteq> idx \<longrightarrow> rows yout1 ! i = rows yout ! i"
    by simp_all
  from Cons.prems(2) have "fst (vode_loop self r args tout s1 yout1 idxs ?st2) = Inr out"
    unfolding unfold .
  from Cons.IH [OF w1(1) this] w1(2,3) show ?case by simp
qed

lemma np_zeros_well_shaped: "well_shaped (np_zeros shp)"
  by (simp add: np_zeros_def well_shaped_def list_all_iff)

lemma integrate_vode_traced_Inr:
  assumes "fst (integrate_vode_traced self r tout y0 params w) = Inr (yout, info)"
  obtains y1 row0 t0 st where
    "set_row (np_zeros (length tout, length y0)) 0 y0 = Inr y1"
    "get_row y1 0 = Inr row0"
    "get_item tout 0 = Inr t0"
    "vode_loop self r (if params \<noteq> [] then [params] else []) tout
        (ode_set_initial_value r row0 t0) y1 [1..<length tout]
        \<lparr>f_ncall = 0, j_ncall = 0, trace = [], world = w\<rparr> = (Inr yout, st)"
    "info = dict_literal [(''num_rhs'', f_ncall st), (''num_dls_jac_evals'', j_ncall st)]"
    "snd (integrate_vode_traced self r tout y0 params w) = (trace st, world st)"
  using assms
  by (auto simp: integrate_vode_traced_def Let_def split: sum.splits prod.splits)


subsection \<open>Runs of the small system\<close>

lemma toy_run_plain: "integrate_vode decay toy_solver [0, 1 / 2, 1] [8] [] () = Inr (toy_yout, toy_info)"
  by code_simp


lemma toy_run_log:
  "fst (vode_world (observed decay) toy_solver [0, 1 / 2, 1] [8] [] ([], ()))
     = [F_eval, J_eval, F_eval, F_eval, J_eval, F_eval]"
  by code_simp


subsection \<open>The claims about \<open>integrate_vode\<close>\<close>





text \<open>
  Claim C7. For a non-empty time grid, a successful call returns a state matrix of shape
  \<open>(len(tout), len(y0))\<close>, with one row per time point and one column per component of
  \<open>y0\<close>, whose first row is \<open>y0\<close>.
\<close>

theorem integrate_vode_shape:
  assumes "tout \<noteq> []" and "integrate_vode self r tout y0 params w = Inr (yout, info)"
  shows "shape yout = (length tout, length y0)
       \<and> length (rows yout) = length tout
       \<and> list_all (\<lambda>row. length row = length y0) (rows yout)
       \<and> rows yout ! 0 = y0"
proof -
  let ?st0 = "\<lparr>f_ncall = 0, j_ncall = 0, trace = [], world = w\<rparr>"
  from assms(2) have "fst (integrate_vode_traced self r tout y0 params w) = Inr (yout, info)"
    by (simp add: integrate_vode_def)
  then obtain y1 row0 t0 st where y1: "set_row (np_zeros (length tout, length y0)) 0 y0 = Inr y1"
    and loop: "vode_loop self r (if params \<noteq> [] then [params] else []) tout
        (ode_set_initial_value r row0 t0) y1 [1..<length tout] ?st0 = (Inr yout, st)"
    by (rule integrate_vode_traced_Inr)
  let ?z = "np_zeros (length tout, length y0) :: 'b ndarray"
  have wz: "well_shaped ?z" by (rule np_zeros_well_shaped)
  have sz: "shape ?z = (length tout, length y0)" by (simp add: np_zeros_def)
  from set_row_well_shaped [OF wz y1] sz have w1: "well_shaped y1" "shape y1 = (length tout, length y0)"
    by simp_all
  from set_row_same [OF wz _ y1] sz have r0: "rows y1 ! 0 = y0" by simp
  from loop have "fst (vode_loop self r (if params \<noteq> [] then [params] else []) tout
        (ode_set_initial_value r row0 t0) y1 [1..<length tout] ?st0) = Inr yout" by simp
  from vode_loop_array [OF w1(1) this] have out:
    "well_shaped yout" "shape yout = shape y1"
    "\<forall>i. i \<notin> set [1..<length tout] \<longrightarrow> rows yout ! i = rows y1 ! i"
    by simp_all
  from out(3) r0 have "rows yout ! 0 = y0" by simp
  with out(1,2) w1(2) show ?thesis by (simp add: well_shaped_def)
qed

theorem integrate_vode_shape_witness:
  "[0, 1 / 2, 1 :: rat] \<noteq> []
   \<and> integrate_vode decay toy_solver [0, 1 / 2, 1] [8] [] () = Inr (toy_yout, toy_info)
   \<and> shape toy_yout = (length [0, 1 / 2, 1 :: rat], length [8 :: rat])
   \<and> length (rows toy_yout) = length [0, 1 / 2, 1 :: rat]
   \<and> list_all (\<lambda>row. length row = length [8 :: rat]) (rows toy_yout)
   \<and> rows toy_yout ! 0 = [8]"
proof -
  have nonempty: "[0, 1 / 2, 1 :: rat] \<noteq> []" by simp
  from integrate_vode_shape [OF nonempty toy_run_plain] nonempty toy_run_plain
  show ?thesis by blast
qed

section \<open>Properties of the module name\<close>

lemma hex_digit_inj: "a < 16 \<Longrightarrow> b < 16 \<Longrightarrow> hex_digit a = hex_digit b \<longleftrightarrow> a = b"
proof -
  have d: "distinct ''0123456789abcdef''" by simp
  assume "a < 16" "b < 16"
  then show ?thesis
    unfolding hex_digit_def by (intro nth_eq_iff_index_eq [OF d]) simp_all
qed

lemma mod_Suc_digits:
  "(A::nat) mod 16 ^ Suc n = B mod 16 ^ Suc n
     \<longleftrightarrow> A mod 16 ^ n = B mod 16 ^ n \<and> A div 16 ^ n mod 16 = B div 16 ^ n mod 16"
proof -
  have split: "m mod 16 ^ Suc n = 16 ^ n * (m div 16 ^ n mod 16) + m mod 16 ^ n" for m :: nat
  proof -
    have "(16::nat) ^ Suc n = 16 ^ n * 16" by simp
    then have "m mod 16 ^ Suc n = m mod (16 ^ n * 16)" by (simp only:)
    also have "\<dots> = 16 ^ n * (m div 16 ^ n mod 16) + m mod 16 ^ n" by (rule mod_mult2_eq)
    finally show ?thesis .
  qed
  show ?thesis
  proof
    assume eq: "A mod 16 ^ Suc n = B mod 16 ^ Suc n"
    have "(A mod 16 ^ Suc n) mod 16 ^ n = A mod 16 ^ n" "(B mod 16 ^ Suc n) mod 16 ^ n = B mod 16 ^ n"
      by (simp_all add: mod_mod_cancel)
    with arg_cong [OF eq, of "\<lambda>x. x mod 16 ^ n"] have low: "A mod 16 ^ n = B mod 16 ^ n"
      by (simp only:)
    with eq split [of A] split [of B] have "(16::nat) ^ n * (A div 16 ^ n mod 16) = 16 ^ n * (B div 16 ^ n mod 16)"
      by simp
    then have "A div 16 ^ n mod 16 = B div 16 ^ n mod 16" by simp
    with low show "A mod 16 ^ n = B mod 16 ^ n \<and> A div 16 ^ n mod 16 = B div 16 ^ n mod 16" ..
  next
    assume "A mod 16 ^ n = B mod 16 ^ n \<and> A div 16 ^ n mod 16 = B div 16 ^ n mod 16"
    then show "A mod 16 ^ Suc n = B mod 16 ^ Suc n"
      by (simp only: split)
  qed
qed

lemma digits_eq_iff:
  "(\<forall>k<n. (A::nat) div 16 ^ k mod 16 = B div 16 ^ k mod 16) \<longleftrightarrow> A mod 16 ^ n = B mod 16 ^ n"
proof (induction n)
  case 0
  show ?case by simp
next
  case (Suc n)
  have "(\<forall>k<Suc n. A div 16 ^ k mod 16 = B div 16 ^ k mod 16)
        \<longleftrightarrow> (\<forall>k<n. A div 16 ^ k mod 16 = B div 16 ^ k mod 16) \<and> A div 16 ^ n mod 16 = B div 16 ^ n mod 16"
    by (auto simp: less_Suc_eq)
  then show ?case unfolding Suc.IH mod_Suc_digits by simp
qed

lemma take_uuid_hex:
  "take 10 (uuid_hex u) = map (\<lambda>i. hex_digit (u div 16 ^ 22 div 16 ^ (9 - i) mod 16)) [0..<10]"
proof -
  have "take 10 (uuid_hex u) = map (\<lambda>i. hex_digit (u div 16 ^ (31 - i) mod 16)) [0..<10]"
    by (simp add: uuid_hex_def take_map)
  also have "\<dots> = map (\<lambda>i. hex_digit (u div 16 ^ 22 div 16 ^ (9 - i) mod 16)) [0..<10]"
  proof (rule map_cong [OF refl])
    fix i assume "i \<in> set [0..<10]"
    then have "31 - i = 22 + (9 - i)" by simp
    then have "(16::nat) ^ (31 - i) = 16 ^ 22 * 16 ^ (9 - i)" by (simp only: power_add)
    then show "hex_digit (u div 16 ^ (31 - i) mod 16) = hex_digit (u div 16 ^ 22 div 16 ^ (9 - i) mod 16)"
      by (simp only: div_mult2_eq)
  qed
  finally show ?thesis .
qed

lemma prefix_eq_iff:
  "take 10 (uuid_hex u1) = take 10 (uuid_hex u2)
     \<longleftrightarrow> u1 div 16 ^ 22 mod 16 ^ 10 = u2 div 16 ^ 22 mod 16 ^ 10"
proof -
  let ?A = "u1 div 16 ^ 22" and ?B = "u2 div 16 ^ 22"
  have "take 10 (uuid_hex u1) = take 10 (uuid_hex u2)
      \<longleftrightarrow> (\<forall>i<10. hex_digit (?A div 16 ^ (9 - i) mod 16) = hex_digit (?B div 16 ^ (9 - i) mod 16))"
    unfolding take_uuid_hex by (simp add: list_eq_iff_nth_eq)
  also have "\<dots> \<longleftrightarrow> (\<forall>i<10. ?A div 16 ^ (9 - i) mod 16 = ?B div 16 ^ (9 - i) mod 16)"
    by (simp add: hex_digit_inj)
  also have "\<dots> \<longleftrightarrow> (\<forall>k<10. ?A div 16 ^ k mod 16 = ?B div 16 ^ k mod 16)"
  proof (intro iffI allI impI)
    fix k :: nat assume h: "\<forall>i<10. ?A div 16 ^ (9 - i) mod 16 = ?B div 16 ^ (9 - i) mod 16" and k: "k < 10"
    from k have "9 - k < 10" "9 - (9 - k) = k" by simp_all
    with h [rule_format, of "9 - k"] show "?A div 16 ^ k mod 16 = ?B div 16 ^ k mod 16" by simp
  next
    fix i :: nat assume h: "\<forall>k<10. ?A div 16 ^ k mod 16 = ?B div 16 ^ k mod 16" and i: "i < 10"
    from i have "9 - i < 10" by simp
    with h show "?A div 16 ^ (9 - i) mod 16 = ?B div 16 ^ (9 - i) mod 16" by blast
  qed
  also have "\<dots> \<longleftrightarrow> ?A mod 16 ^ 10 = ?B mod 16 ^ 10" by (rule digits_eq_iff)
  finally show ?thesis .
qed

text \<open>
  Claim C8, as amended. Two invocations of \<open>setup\<close> generate distinct module names exactly
  when their UUIDs differ in the leading 40 bits, the ten hexadecimal digits that the name
  keeps; UUIDs that agree there give the same name.
\<close>

theorem mod_name_eq_iff_leading_bits:
  "mod_name u1 = mod_name u2 \<longleftrightarrow> u1 div 2 ^ 88 mod 2 ^ 40 = u2 div 2 ^ 88 mod 2 ^ 40"
proof -
  have "(16::nat) ^ 22 = 2 ^ 88" "(16::nat) ^ 10 = 2 ^ 40" by simp_all
  then show ?thesis unfolding mod_name_def using prefix_eq_iff [of u1 u2] by simp
qed

text \<open>
  Claim C8 as written fails: two different version-4 UUIDs that share their first ten
  hexadecimal digits \<^verbatim>\<open>3f2a9c01d7\<close> give the same module name.
\<close>

theorem mod_name_collision:
  "is_uuid4 0x3f2a9c01d7e84b6fa1c35d7e9b024c68 \<and> is_uuid4 0x3f2a9c01d7114e22b0907a5512f3c9d0
   \<and> (0x3f2a9c01d7e84b6fa1c35d7e9b024c68 :: nat) \<noteq> 0x3f2a9c01d7114e22b0907a5512f3c9d0
   \<and> mod_name 0x3f2a9c01d7e84b6fa1c35d7e9b024c68 = mod_name 0x3f2a9c01d7114e22b0907a5512f3c9d0"
proof -
  have "take 10 (uuid_hex 0x3f2a9c01d7e84b6fa1c35d7e9b024c68)
      = take 10 (uuid_hex 0x3f2a9c01d7114e22b0907a5512f3c9d0)"
    unfolding prefix_eq_iff by simp
  then have "mod_name 0x3f2a9c01d7e84b6fa1c35d7e9b024c68
      = mod_name 0x3f2a9c01d7114e22b0907a5512f3c9d0"
    by (simp only: mod_name_def)
  moreover have "is_uuid4 0x3f2a9c01d7e84b6fa1c35d7e9b024c68"
    by (simp add: is_uuid4_def)
  moreover have "is_uuid4 0x3f2a9c01d7114e22b0907a5512f3c9d0"
    by (simp add: is_uuid4_def)
  moreover have "(0x3f2a9c01d7e84b6fa1c35d7e9b024c68 :: nat) \<noteq> 0x3f2a9c01d7114e22b0907a5512f3c9d0"
    by simp
  ultimately show ?thesis by blast
qed

section \<open>Properties of the stencil\<close>

lemma central_reference_bin_range:
  assumes "3 \<le> ny" and "ny \<le> n_lines" and "0 \<le> i" and "i < n_lines"
  shows "1 \<le> central_reference_bin ny i \<and> central_reference_bin ny i \<le> n_lines - 2"
  using assms by (auto simp: central_reference_bin_def clip_def)

text \<open>
  Claim C9 (every stencil index lies in \<open>[0, ny * n_lines)\<close>) does not hold of the code:
  the bin index is clipped against the number of species \<open>ny\<close> where the number of bins
  \<open>n_lines\<close> is meant. For the two-species, fifty-bin system of the notebook every bin
  gets the reference bin \<open>0\<close>, and the left neighbour of species \<open>0\<close> is read at index
  \<open>-2\<close>.
\<close>

theorem stencil_out_of_bounds_two_species:
  "central_reference_bin 2 0 = 0 \<and> stencil_indices 2 0 0 = [- 2, 0, 2]
   \<and> \<not> in_bounds 2 50 (hd (stencil_indices 2 0 0))"
  by (simp add: central_reference_bin_def clip_def stencil_indices_def in_bounds_def)

end

